theory Spec2Isabelle
  imports Complex_Main "HOL-Library.Product_Lexorder" "HOL-Library.Multiset"
begin

section \<open>The improvement emitter of \<^verbatim>\<open>ribs/emitters/_improvement_emitter.py\<close>\<close>

text \<open>
  The emitter sits between a caller, an archive and a CMA-ES optimizer. The archive
  (\<^verbatim>\<open>ribs.archives\<close>), the optimizer (\<^verbatim>\<open>ribs.emitters.opt\<close>), the emitter base
  class and numpy's random generator are not part of the source file: they are
  collaborators, taken as parameters. Python's unbounded integers are \<^typ>\<open>int\<close>.
\<close>

subsection \<open>Data\<close>

type_synonym solution = "real list"
type_synonym behavior = "real list"

text \<open>
  An objective or an improvement value is a Python float: a number, an infinity or NaN.
  The numbers and the infinities are linearly ordered; \<^verbatim>\<open><\<close> and \<^verbatim>\<open>==\<close> are false
  whenever one side is NaN, also between NaN and itself.
\<close>

datatype pyfloat = NegInf | Num real | PosInf | NaN

fun float_key :: "pyfloat \<Rightarrow> int \<times> real" where
  "float_key NegInf = (- 1, 0)"
| "float_key (Num r) = (0, r)"
| "float_key PosInf = (1, 0)"
| "float_key NaN = (2, 0)"

definition float_lt :: "pyfloat \<Rightarrow> pyfloat \<Rightarrow> bool" where
  "float_lt a b = (a \<noteq> NaN \<and> b \<noteq> NaN \<and> float_key a < float_key b)"

definition float_eq :: "pyfloat \<Rightarrow> pyfloat \<Rightarrow> bool" where
  "float_eq a b = (a \<noteq> NaN \<and> b \<noteq> NaN \<and> a = b)"

text \<open>
  Modelled from the spec: \<^verbatim>\<open>AddStatus\<close> is imported from \<^verbatim>\<open>ribs.archives\<close>, which
  is not among the sources. It is an integer enumeration with the closed set of members
  NEW, IMPROVE_EXISTING and NOT_ADDED; a reverse sort puts NEW before IMPROVE_EXISTING
  before NOT_ADDED, so the integer values grow in the order NOT_ADDED, IMPROVE_EXISTING,
  NEW. Members compare as their integers do.
\<close>

datatype add_status = NOT_ADDED | IMPROVE_EXISTING | NEW

fun status_value :: "add_status \<Rightarrow> int" where
  "status_value NOT_ADDED = 0"
| "status_value IMPROVE_EXISTING = 1"
| "status_value NEW = 2"

instantiation add_status :: linorder
begin

definition less_eq_add_status :: "add_status \<Rightarrow> add_status \<Rightarrow> bool" where
  "less_eq_add_status a b = (status_value a \<le> status_value b)"

definition less_add_status :: "add_status \<Rightarrow> add_status \<Rightarrow> bool" where
  "less_add_status a b = (status_value a < status_value b)"

instance
proof
  fix x y z :: add_status
  show "(x < y) = (x \<le> y \<and> \<not> y \<le> x)"
    by (simp add: less_eq_add_status_def less_add_status_def less_le_not_le)
  show "x \<le> x"
    by (simp add: less_eq_add_status_def)
  show "x \<le> y \<Longrightarrow> y \<le> z \<Longrightarrow> x \<le> z"
    by (simp add: less_eq_add_status_def)
  show "x \<le> y \<Longrightarrow> y \<le> x \<Longrightarrow> x = y"
    by (cases x; cases y; simp add: less_eq_add_status_def)
  show "x \<le> y \<or> y \<le> x"
    by (simp add: less_eq_add_status_def linear)
qed

end

text \<open>A ranking record is the tuple \<^verbatim>\<open>(status, value, i)\<close> that \<^verbatim>\<open>tell\<close> appends.\<close>

type_synonym ranking_record = "add_status \<times> pyfloat \<times> nat"

datatype error = ValueError string | IndexError

text \<open>
  Per-dimension bounds as the constructor receives them: \<^verbatim>\<open>None\<close>, or one entry per
  dimension that is \<^verbatim>\<open>None\<close> or a pair of optional limits.
\<close>

type_synonym bounds = "(real option \<times> real option) option list"

subsection \<open>Collaborators\<close>

text \<open>
  The operations of the archive, of the optimizer and of the random generator that the
  emitter calls. Each takes the collaborator's state and returns the new one with its
  result. \<^verbatim>\<open>add\<close> returns the triple \<^verbatim>\<open>(status, value, entry)\<close>; \<^verbatim>\<open>get_random_elite\<close>
  returns a tuple whose component 0 is the elite's solution. The optimizer's constructor
  can fail (it validates \<^verbatim>\<open>weight_rule\<close>), and so can the two steps of the emitter's
  constructor that come before its own checks: \<^verbatim>\<open>np.array(x0, dtype=archive.dtype)\<close>
  (\<open>np_array\<close>) and \<^verbatim>\<open>EmitterBase.__init__\<close> (\<open>base_init\<close>), which is given the
  solution dimension and the bounds and yields the lower and upper limits. The
  collaborators' own exceptions during \<^verbatim>\<open>ask\<close> and \<^verbatim>\<open>tell\<close> are outside the model:
  the spec takes these operations as safe to call in sequence.

  \<open>nan_order\<close> stands for what Python's \<^verbatim>\<open>list.sort\<close> does with records that it
  cannot order: with a NaN among the values the result is a rearrangement that depends on
  the internals of the sorting algorithm, and the model takes it to be the list sorted by
  the keys that \<open>nan_order\<close> gives.
\<close>

record ('arch, 'opt, 'rng, 'm) collab =
  add :: "'arch \<Rightarrow> solution \<Rightarrow> pyfloat \<Rightarrow> behavior \<Rightarrow> 'm option
            \<Rightarrow> (add_status \<times> pyfloat \<times> nat) \<times> 'arch"
  get_random_elite :: "'arch \<Rightarrow> (solution \<times> pyfloat \<times> behavior) \<times> 'arch"
  opt_init :: "real \<Rightarrow> int option \<Rightarrow> nat \<Rightarrow> string \<Rightarrow> 'rng \<Rightarrow> error + 'opt"
  opt_batch_size :: "'opt \<Rightarrow> int"
  opt_reset :: "'opt \<Rightarrow> solution \<Rightarrow> 'opt"
  opt_ask :: "'opt \<Rightarrow> real option list \<Rightarrow> real option list \<Rightarrow> solution list \<times> 'opt"
  opt_tell :: "'opt \<Rightarrow> solution list \<Rightarrow> int option \<Rightarrow> 'opt"
  opt_check_stop :: "'opt \<Rightarrow> pyfloat list \<Rightarrow> bool \<times> 'opt"
  rng_from_seed :: "nat \<Rightarrow> 'rng"
  rng_integers :: "'rng \<Rightarrow> nat \<Rightarrow> nat \<times> 'rng"
  np_array :: "real list \<Rightarrow> error + solution"
  base_init :: "nat \<Rightarrow> bounds option \<Rightarrow> error + (real option list \<times> real option list)"
  nan_order :: "ranking_record list \<Rightarrow> ranking_record \<Rightarrow> nat"

text \<open>
  \<^verbatim>\<open>np.random.default_rng(seed)\<close>: a generator seeded with \<^verbatim>\<open>seed\<close>, or, when the
  seed is \<^verbatim>\<open>None\<close>, with fresh entropy of the operating system. The entropy is the
  ambient state of the process; the model takes it as the argument \<open>fresh\<close>. numpy
  refuses a negative seed with a \<^verbatim>\<open>ValueError\<close>.
\<close>

definition default_rng ::
  "('arch, 'opt, 'rng, 'm) collab \<Rightarrow> int option \<Rightarrow> nat \<Rightarrow> error + 'rng" where
  "default_rng C seed fresh =
     (case seed of
        None \<Rightarrow> Inr (rng_from_seed C fresh)
      | Some s \<Rightarrow>
          if s < 0 then Inl (ValueError ''expected non-negative integer'')
          else Inr (rng_from_seed C (nat s)))"

text \<open>
  Modelled from the spec: \<^verbatim>\<open>CMAEvolutionStrategy\<close> is imported from
  \<^verbatim>\<open>ribs.emitters.opt\<close>, which is not among the sources. It is initialised with the step
  size, the requested batch size, the solution dimension, the weight rule and the derived
  seed, from which it seeds a generator of its own; a seed of \<^verbatim>\<open>None\<close> is
  non-deterministic. The array dtype is not modelled.
\<close>

definition CMAEvolutionStrategy ::
  "('arch, 'opt, 'rng, 'm) collab \<Rightarrow> nat \<Rightarrow> real \<Rightarrow> int option \<Rightarrow> nat \<Rightarrow> string \<Rightarrow> int option
     \<Rightarrow> error + 'opt" where
  "CMAEvolutionStrategy C fresh sigma0 batch_size solution_dim weight_rule seed =
     (case default_rng C seed fresh of
        Inl err \<Rightarrow> Inl err
      | Inr g \<Rightarrow> opt_init C sigma0 batch_size solution_dim weight_rule g)"

subsection \<open>The emitter\<close>

record ('arch, 'opt, 'rng) emitter =
  rng :: "'rng"
  batch_size :: int
  x0 :: solution
  sigma0 :: real
  archive :: "'arch"
  solution_dim :: nat
  lower_bounds :: "real option list"
  upper_bounds :: "real option list"
  selection_rule :: string
  restart_rule :: string
  opt :: "'opt"
  num_parents :: "int option"
  restarts :: int

text \<open>
  \<^verbatim>\<open>__init__\<close>. The argument \<open>entropy\<close> is the operating system's entropy, of which
  the emitter's generator takes the draw \<open>entropy 0\<close> and the optimizer's generator the
  draw \<open>entropy 1\<close> when they are not seeded. The steps come in the source's order:
  the generator, the array of \<^verbatim>\<open>x0\<close> and the base class are set up first, and an error
  of one of them is raised before any rule is checked; then come the two rule checks, and
  then the optimizer is built.
\<close>

definition derive_opt_seed ::
  "('arch, 'opt, 'rng, 'm) collab \<Rightarrow> int option \<Rightarrow> 'rng \<Rightarrow> int option \<times> 'rng" where
  "derive_opt_seed C seed g =
     (case seed of
        None \<Rightarrow> (None, g)
      | Some s \<Rightarrow> (case rng_integers C g 10000 of (k, g') \<Rightarrow> (Some (int k), g')))"

definition emitter_init ::
  "('arch, 'opt, 'rng, 'm) collab \<Rightarrow> (nat \<Rightarrow> nat) \<Rightarrow> 'arch \<Rightarrow> real list \<Rightarrow> real \<Rightarrow> string \<Rightarrow> string
     \<Rightarrow> string \<Rightarrow> bounds option \<Rightarrow> int option \<Rightarrow> int option
     \<Rightarrow> error + ('arch, 'opt, 'rng) emitter" where
  "emitter_init C entropy arch x sigma selection restart weight_rule bnds requested seed =
     (case default_rng C seed (entropy 0) of
        Inl err \<Rightarrow> Inl err
      | Inr g0 \<Rightarrow>
     (case np_array C x of
        Inl err \<Rightarrow> Inl err
      | Inr xa \<Rightarrow>
     (case base_init C (length xa) bnds of
        Inl err \<Rightarrow> Inl err
      | Inr lu \<Rightarrow>
         if selection \<notin> set [''mu'', ''filter'']
         then Inl (ValueError (''Invalid selection_rule '' @ selection))
         else if restart \<notin> set [''basic'', ''no_improvement'']
         then Inl (ValueError (''Invalid restart_rule '' @ restart))
         else
           (case derive_opt_seed C seed g0 of (opt_seed, g1) \<Rightarrow>
              (case CMAEvolutionStrategy C (entropy 1) sigma requested (length xa) weight_rule
                      opt_seed of
                 Inl err \<Rightarrow> Inl err
               | Inr o0 \<Rightarrow>
                   (let o1 = opt_reset C o0 xa
                    in Inr \<lparr> rng = g1,
                             batch_size = opt_batch_size C o1,
                             x0 = xa,
                             sigma0 = sigma,
                             archive = arch,
                             solution_dim = length xa,
                             lower_bounds = fst lu,
                             upper_bounds = snd lu,
                             selection_rule = selection,
                             restart_rule = restart,
                             opt = o1,
                             num_parents =
                               (if selection = ''mu'' then Some (opt_batch_size C o1 div 2)
                                else None),
                             restarts = 0 \<rparr>))))))"

text \<open>\<^verbatim>\<open>ask\<close>: the flag \<^verbatim>\<open>grad_estimate\<close> is ignored.\<close>

definition ask ::
  "('arch, 'opt, 'rng, 'm) collab \<Rightarrow> ('arch, 'opt, 'rng) emitter \<Rightarrow> bool
     \<Rightarrow> solution list \<times> ('arch, 'opt, 'rng) emitter" where
  "ask C e grad_estimate =
     (case opt_ask C (opt e) (lower_bounds e) (upper_bounds e) of
        (batch, o') \<Rightarrow> (batch, e\<lparr>opt := o'\<rparr>))"

text \<open>\<^verbatim>\<open>_check_restart\<close>.\<close>

definition check_restart :: "('arch, 'opt, 'rng) emitter \<Rightarrow> int \<Rightarrow> bool" where
  "check_restart e n =
     (if restart_rule e = ''no_improvement'' then n = 0 else False)"

subsection \<open>The calls that \<^verbatim>\<open>tell\<close> makes\<close>

text \<open>
  The collaborators are opaque, so what the emitter passes to them is observed through
  the sequence of calls it makes: \<^verbatim>\<open>tell\<close> returns no value in the source, and the
  model returns this sequence with the new state. A call to the archive's \<^verbatim>\<open>add\<close>
  carries its four arguments and the status and value returned; \<^verbatim>\<open>check_stop\<close> its
  argument and its answer; \<^verbatim>\<open>get_random_elite\<close> the solution at component 0 of its
  result.
\<close>

datatype 'm call =
    ArchiveAdd solution pyfloat behavior "'m option" add_status pyfloat
  | OptTell "solution list" "int option"
  | OptCheckStop "pyfloat list" bool
  | ArchiveGetRandomElite solution
  | OptReset solution

text \<open>
  The fourth argument of \<^verbatim>\<open>zip\<close>: \<^verbatim>\<open>itertools.repeat(None)\<close>, which never ends, or
  the caller's sequence.
\<close>

datatype 'm meta_iter = Repeat_None | Items "'m option list"

fun next_meta :: "'m meta_iter \<Rightarrow> ('m option \<times> 'm meta_iter) option" where
  "next_meta Repeat_None = Some (None, Repeat_None)"
| "next_meta (Items []) = None"
| "next_meta (Items (m # ms)) = Some (m, Items ms)"

definition meta_iter_of :: "'m option list option \<Rightarrow> 'm meta_iter" where
  "meta_iter_of metadata = (case metadata of None \<Rightarrow> Repeat_None | Some ms \<Rightarrow> Items ms)"

text \<open>
  \<^verbatim>\<open>zip(solutions, objective_values, behavior_values, metadata)\<close>: it asks each
  sequence in turn for its next item and stops at the first one that has none.
\<close>

fun zip4 ::
  "solution list \<Rightarrow> pyfloat list \<Rightarrow> behavior list \<Rightarrow> 'm meta_iter
     \<Rightarrow> (solution \<times> pyfloat \<times> behavior \<times> 'm option) list" where
  "zip4 (sol # sols) (obj # objs) (beh # behs) it =
     (case next_meta it of
        None \<Rightarrow> []
      | Some (m, it') \<Rightarrow> (sol, obj, beh, m) # zip4 sols objs behs it')"
| "zip4 sols objs behs it = []"

text \<open>
  The \<^verbatim>\<open>for\<close> loop of \<^verbatim>\<open>tell\<close>, with the index \<open>i\<close> of \<^verbatim>\<open>enumerate\<close>. Its state
  is the archive, \<^verbatim>\<open>ranking_data\<close>, \<^verbatim>\<open>new_sols\<close> and the calls made so far.
\<close>

fun add_loop ::
  "('arch, 'opt, 'rng, 'm) collab \<Rightarrow> nat \<Rightarrow> (solution \<times> pyfloat \<times> behavior \<times> 'm option) list
     \<Rightarrow> 'arch \<times> ranking_record list \<times> int \<times> 'm call list
     \<Rightarrow> 'arch \<times> ranking_record list \<times> int \<times> 'm call list" where
  "add_loop C i [] st = st"
| "add_loop C i ((sol, obj, beh, meta) # rest) (arch, ranking_data, new_sols, calls) =
     (case add C arch sol obj beh meta of
        ((status, val, entry), arch') \<Rightarrow>
          add_loop C (Suc i) rest
            (arch',
             ranking_data @ [(status, val, i)],
             (if status = NEW \<or> status = IMPROVE_EXISTING then new_sols + 1 else new_sols),
             calls @ [ArchiveAdd sol obj beh meta status val]))"

text \<open>
  \<^verbatim>\<open>ranking_data.sort(reverse=True)\<close>: Python reverses the list, sorts it with its
  stable ascending sort, and reverses the result. The tuples compare lexicographically,
  the status as its integer, the value as a float, the index as an integer. When no value
  is NaN this is the order of the keys \<open>record_key\<close>, which is linear. When a value is
  NaN the comparisons do not make an order and the sort leaves a rearrangement that
  depends on its internals; the model takes it from the parameter \<open>nan_order\<close>.
\<close>

fun record_key :: "ranking_record \<Rightarrow> add_status \<times> (int \<times> real) \<times> nat" where
  "record_key (status, val, i) = (status, float_key val, i)"

definition has_nan :: "ranking_record list \<Rightarrow> bool" where
  "has_nan xs = list_ex (\<lambda>(status, val, i). val = NaN) xs"

definition sort_reverse ::
  "(ranking_record list \<Rightarrow> ranking_record \<Rightarrow> nat) \<Rightarrow> ranking_record list \<Rightarrow> ranking_record list" where
  "sort_reverse unordered xs =
     (if has_nan xs then sort_key (unordered xs) xs
      else rev (sort_key record_key (rev xs)))"

text \<open>
  \<^verbatim>\<open>solutions[indices]\<close>: the rows of \<^verbatim>\<open>solutions\<close> at the given indices, in their
  order; an index past the end raises.
\<close>

definition take_rows :: "'a list \<Rightarrow> nat list \<Rightarrow> error + 'a list" where
  "take_rows xs indices =
     (if list_all (\<lambda>i. i < length xs) indices then Inr (map (\<lambda>i. xs ! i) indices)
      else Inl IndexError)"

text \<open>\<^verbatim>\<open>tell\<close>. The argument \<^verbatim>\<open>jacobian\<close> is ignored and left out.\<close>

definition tell ::
  "('arch, 'opt, 'rng, 'm) collab \<Rightarrow> ('arch, 'opt, 'rng) emitter \<Rightarrow> solution list \<Rightarrow> pyfloat list
     \<Rightarrow> behavior list \<Rightarrow> 'm option list option
     \<Rightarrow> error + ('m call list \<times> ('arch, 'opt, 'rng) emitter)" where
  "tell C e solutions objective_values behavior_values metadata =
     (case add_loop C 0
             (zip4 solutions objective_values behavior_values (meta_iter_of metadata))
             (archive e, [], 0, []) of
        (arch1, ranking_data0, new_sols, calls1) \<Rightarrow>
          (let ranking_data = sort_reverse (nan_order C) ranking_data0;
               indices = map (\<lambda>(status, val, i). i) ranking_data;
               parents = (if selection_rule e = ''filter'' then Some new_sols
                          else num_parents e)
           in case take_rows solutions indices of
                Inl err \<Rightarrow> Inl err
              | Inr ranked \<Rightarrow>
                  (let o1 = opt_tell C (opt e) ranked parents;
                       vals = map (\<lambda>(status, val, i). val) ranking_data
                   in case opt_check_stop C o1 vals of
                        (stop, o2) \<Rightarrow>
                          (if stop \<or> check_restart e new_sols
                           then
                             (case get_random_elite C arch1 of
                                (elite, arch2) \<Rightarrow>
                                  (let new_x0 = fst elite
                                   in Inr (calls1 @ [OptTell ranked parents,
                                                     OptCheckStop vals stop,
                                                     ArchiveGetRandomElite new_x0,
                                                     OptReset new_x0],
                                           e\<lparr>archive := arch2,
                                             opt := opt_reset C o2 new_x0,
                                             restarts := restarts e + 1\<rparr>)))
                           else Inr (calls1 @ [OptTell ranked parents,
                                               OptCheckStop vals stop],
                                     e\<lparr>archive := arch1, opt := o2\<rparr>)))))"

subsection \<open>Sessions\<close>

text \<open>
  A caller drives an emitter through a sequence of \<^verbatim>\<open>ask\<close> and \<^verbatim>\<open>tell\<close> calls. What
  it observes of each call is the batch returned, or the calls \<^verbatim>\<open>tell\<close> made.
\<close>

datatype 'm command =
    Ask bool
  | Tell "solution list" "pyfloat list" "behavior list" "'m option list option"

datatype 'm observation = Batch "solution list" | Told "'m call list"

fun run ::
  "('arch, 'opt, 'rng, 'm) collab \<Rightarrow> ('arch, 'opt, 'rng) emitter \<Rightarrow> 'm command list
     \<Rightarrow> error + ('m observation list \<times> ('arch, 'opt, 'rng) emitter)" where
  "run C e [] = Inr ([], e)"
| "run C e (Ask g # cmds) =
     (case ask C e g of
        (batch, e1) \<Rightarrow>
          (case run C e1 cmds of
             Inl err \<Rightarrow> Inl err
           | Inr (obs, e2) \<Rightarrow> Inr (Batch batch # obs, e2)))"
| "run C e (Tell sols objs behs metadata # cmds) =
     (case tell C e sols objs behs metadata of
        Inl err \<Rightarrow> Inl err
      | Inr (calls, e1) \<Rightarrow>
          (case run C e1 cmds of
             Inl err \<Rightarrow> Inl err
           | Inr (obs, e2) \<Rightarrow> Inr (Told calls # obs, e2)))"

subsection \<open>Reading the calls\<close>

fun add_of :: "'m call \<Rightarrow> (solution \<times> pyfloat \<times> behavior \<times> 'm option) list" where
  "add_of (ArchiveAdd sol obj beh meta status val) = [(sol, obj, beh, meta)]"
| "add_of c = []"

fun outcome_of :: "'m call \<Rightarrow> (add_status \<times> pyfloat) list" where
  "outcome_of (ArchiveAdd sol obj beh meta status val) = [(status, val)]"
| "outcome_of c = []"

fun told_of :: "'m call \<Rightarrow> (solution list \<times> int option) list" where
  "told_of (OptTell sols n) = [(sols, n)]"
| "told_of c = []"

fun stop_of :: "'m call \<Rightarrow> (pyfloat list \<times> bool) list" where
  "stop_of (OptCheckStop vals b) = [(vals, b)]"
| "stop_of c = []"

fun elite_of :: "'m call \<Rightarrow> solution list" where
  "elite_of (ArchiveGetRandomElite sol) = [sol]"
| "elite_of c = []"

fun reset_of :: "'m call \<Rightarrow> solution list" where
  "reset_of (OptReset sol) = [sol]"
| "reset_of c = []"

text \<open>The arguments of the calls to \<^verbatim>\<open>Archive.add\<close>, in the order of the calls.\<close>

definition adds :: "'m call list \<Rightarrow> (solution \<times> pyfloat \<times> behavior \<times> 'm option) list" where
  "adds calls = concat (map add_of calls)"

text \<open>The status and value each call to \<^verbatim>\<open>Archive.add\<close> returned.\<close>

definition outcomes :: "'m call list \<Rightarrow> (add_status \<times> pyfloat) list" where
  "outcomes calls = concat (map outcome_of calls)"

text \<open>The arguments of the calls to \<^verbatim>\<open>Optimizer.tell\<close>.\<close>

definition tolds :: "'m call list \<Rightarrow> (solution list \<times> int option) list" where
  "tolds calls = concat (map told_of calls)"

text \<open>The argument and the answer of each call to \<^verbatim>\<open>Optimizer.check_stop\<close>.\<close>

definition stops :: "'m call list \<Rightarrow> (pyfloat list \<times> bool) list" where
  "stops calls = concat (map stop_of calls)"

text \<open>The solutions drawn by \<^verbatim>\<open>Archive.get_random_elite\<close>.\<close>

definition elites :: "'m call list \<Rightarrow> solution list" where
  "elites calls = concat (map elite_of calls)"

text \<open>The arguments of the calls to \<^verbatim>\<open>Optimizer.reset\<close>.\<close>

definition resets :: "'m call list \<Rightarrow> solution list" where
  "resets calls = concat (map reset_of calls)"

text \<open>
  The ranking records of a call to \<^verbatim>\<open>tell\<close>: the status and value of each insertion
  with its index in the batch.
\<close>

definition records :: "'m call list \<Rightarrow> ranking_record list" where
  "records calls = map (\<lambda>(i, status, val). (status, val, i)) (enumerate 0 (outcomes calls))"

text \<open>The solutions whose status is NEW or IMPROVE_EXISTING.\<close>

definition added :: "add_status \<times> pyfloat \<Rightarrow> bool" where
  "added r = (fst r = NEW \<or> fst r = IMPROVE_EXISTING)"

definition new_sols_of :: "'m call list \<Rightarrow> int" where
  "new_sols_of calls = int (length (filter added (outcomes calls)))"

text \<open>
  The insertions the claims speak of, apart from the loop of \<^verbatim>\<open>tell\<close>: the rows are
  added to the archive one after the other, each to the archive that the one before
  left. The result is the status and value that \<^verbatim>\<open>Archive.add\<close> answered for each
  row, and the archive after the last.
\<close>

fun insertions ::
  "('arch, 'opt, 'rng, 'm) collab \<Rightarrow> 'arch \<Rightarrow> (solution \<times> pyfloat \<times> behavior \<times> 'm option) list
     \<Rightarrow> (add_status \<times> pyfloat) list \<times> 'arch" where
  "insertions C arch [] = ([], arch)"
| "insertions C arch (row # rows) =
     (case row of (sol, obj, beh, meta) \<Rightarrow>
        (case insertions C (snd (add C arch sol obj beh meta)) rows of
           (answers, arch') \<Rightarrow>
             ((fst (fst (add C arch sol obj beh meta)),
               fst (snd (fst (add C arch sol obj beh meta)))) # answers, arch')))"

text \<open>
  The order the claims describe, in their words: a record comes before another when its
  status is NEW and the other's is not, or IMPROVE_EXISTING against NOT_ADDED; with equal
  status, when its improvement value is larger; with both equal, when its batch index is
  larger. Larger and equal are those of Python's floats.
\<close>

fun status_before :: "add_status \<Rightarrow> add_status \<Rightarrow> bool" where
  "status_before NEW IMPROVE_EXISTING = True"
| "status_before NEW NOT_ADDED = True"
| "status_before IMPROVE_EXISTING NOT_ADDED = True"
| "status_before a b = False"

definition ranks_before :: "ranking_record \<Rightarrow> ranking_record \<Rightarrow> bool" where
  "ranks_before r1 r2 =
     (case r1 of (s1, v1, i1) \<Rightarrow> case r2 of (s2, v2, i2) \<Rightarrow>
        status_before s1 s2 \<or> (s1 = s2 \<and> float_lt v2 v1) \<or>
        (s1 = s2 \<and> float_eq v1 v2 \<and> i2 < i1))"

subsection \<open>A small archive and optimizer for the examples\<close>

text \<open>
  Collaborators to run the emitter on. The archive counts its insertions; an objective of
  at least 2 is NEW, of at least 1 IMPROVE_EXISTING, anything else (NaN too) NOT_ADDED,
  and the improvement value is the objective. Its random elite is the vector of its
  count. The optimizer is a triple of its generator, its batch size and its mean; it
  samples its mean shifted by the generator, validates the weight rule, and stops when
  one of the values it is given is a number above 100 in absolute value. The generator is
  a counter. The array of \<^verbatim>\<open>x0\<close> is \<^verbatim>\<open>x0\<close>, and the base class refuses bounds that
  do not have one entry per dimension. Records that cannot be ordered are left in the
  order of the batch, which is what Python's sort does with a list in which no
  comparison holds.
\<close>

fun toy_status :: "pyfloat \<Rightarrow> add_status" where
  "toy_status (Num r) =
     (if 2 \<le> r then NEW else if 1 \<le> r then IMPROVE_EXISTING else NOT_ADDED)"
| "toy_status PosInf = NEW"
| "toy_status v = NOT_ADDED"

fun toy_large :: "pyfloat \<Rightarrow> bool" where
  "toy_large (Num r) = (100 < \<bar>r\<bar>)"
| "toy_large v = False"

definition toy :: "(nat, nat \<times> int \<times> solution, nat, nat) collab" where
  "toy =
     \<lparr> add = (\<lambda>arch sol obj beh meta. ((toy_status obj, obj, arch), Suc arch)),
       get_random_elite = (\<lambda>arch. (([real arch], Num 0, []), arch)),
       opt_init = (\<lambda>sigma requested dim weight_rule g.
                if weight_rule \<in> set [''truncation'', ''active'']
                then Inr (g, (case requested of None \<Rightarrow> 4 | Some b \<Rightarrow> b), [])
                else Inl (ValueError (''Invalid weight_rule '' @ weight_rule))),
       opt_batch_size = (\<lambda>(g, n, mean). n),
       opt_reset = (\<lambda>(g, n, mean) x. (g, n, x)),
       opt_ask = (\<lambda>(g, n, mean) lb ub.
                (replicate (nat n) (map (\<lambda>c. c + real g) mean), (Suc g, n, mean))),
       opt_tell = (\<lambda>st sols parents. st),
       opt_check_stop = (\<lambda>st vals. (list_ex toy_large vals, st)),
       rng_from_seed = (\<lambda>s. s),
       rng_integers = (\<lambda>g n. (g mod n, Suc g)),
       np_array = (\<lambda>x. Inr x),
       base_init = (\<lambda>dim bnds.
                case bnds of
                  None \<Rightarrow> Inr (replicate dim None, replicate dim None)
                | Some bs \<Rightarrow>
                    if length bs = dim
                    then Inr (map (\<lambda>b. case b of None \<Rightarrow> None | Some (lo, hi) \<Rightarrow> lo) bs,
                              map (\<lambda>b. case b of None \<Rightarrow> None | Some (lo, hi) \<Rightarrow> hi) bs)
                    else Inl (ValueError ''bounds must have length solution_dim'')),
       nan_order = (\<lambda>xs (status, val, i). i) \<rparr>"

text \<open>
  The emitter that \<^verbatim>\<open>__init__\<close> builds on these collaborators from an empty archive,
  \<^verbatim>\<open>x0 = [0]\<close>, \<^verbatim>\<open>sigma0 = 0.5\<close>, \<^verbatim>\<open>batch_size = 3\<close> and \<^verbatim>\<open>seed = 7\<close>.
\<close>

definition ex_emitter :: "string \<Rightarrow> string \<Rightarrow> (nat, nat \<times> int \<times> solution, nat) emitter" where
  "ex_emitter selection restart =
     \<lparr> rng = 8, batch_size = 3, x0 = [0], sigma0 = 1 / 2, archive = 0, solution_dim = 1,
       lower_bounds = [None], upper_bounds = [None], selection_rule = selection,
       restart_rule = restart, opt = (7, 3, [0]),
       num_parents = (if selection = ''mu'' then Some 1 else None), restarts = 0 \<rparr>"

definition ex_sols :: "solution list" where
  "ex_sols = [[1], [2], [3]]"

definition ex_behs :: "behavior list" where
  "ex_behs = [[0], [0], [0]]"

section \<open>Properties\<close>

subsection \<open>The ranking order\<close>

lemma status_before_iff: "status_before a b = (b < a)"
  by (cases a; cases b; simp add: less_add_status_def)

lemma float_key_inj: "float_key a = float_key b \<Longrightarrow> a = b"
  by (cases a; cases b) simp_all

lemma record_key_inj: "inj_on record_key A"
  by (rule inj_onI) (auto dest: float_key_inj)

lemma ranks_before_iff:
  assumes "fst (snd r1) \<noteq> NaN" and "fst (snd r2) \<noteq> NaN"
  shows "ranks_before r1 r2 = (record_key r2 < record_key r1)"
proof -
  obtain s1 v1 i1 where r1: "r1 = (s1, v1, i1)" by (cases r1)
  obtain s2 v2 i2 where r2: "r2 = (s2, v2, i2)" by (cases r2)
  have e: "(float_key v2 = float_key v1) = (v1 = v2)"
    by (auto dest: float_key_inj)
  show ?thesis
    using assms e unfolding r1 r2
    by (auto simp: ranks_before_def status_before_iff float_lt_def float_eq_def le_less)
qed

lemma mset_sort_reverse: "mset (sort_reverse f xs) = mset xs"
  by (simp add: sort_reverse_def)

lemma set_sort_reverse: "set (sort_reverse f xs) = set xs"
  by (simp add: sort_reverse_def)

lemma has_nan_iff: "has_nan xs = (\<exists>r \<in> set xs. fst (snd r) = NaN)"
  by (simp add: has_nan_def list_ex_iff case_prod_unfold)

lemma sorted_sort_reverse:
  assumes "distinct xs" and "\<not> has_nan xs"
  shows "sorted_wrt ranks_before (sort_reverse f xs)"
proof -
  let ?ys = "sort_key record_key (rev xs)"
  have "distinct ?ys"
    using assms(1) by simp
  then have "distinct (map record_key ?ys)"
    by (simp add: distinct_map record_key_inj)
  moreover have "sorted (map record_key ?ys)"
    by (rule sorted_sort_key)
  ultimately have "sorted_wrt (<) (map record_key ?ys)"
    by (simp add: strict_sorted_iff)
  then have "sorted_wrt (\<lambda>a b. record_key a < record_key b) ?ys"
    by (simp add: sorted_wrt_map)
  then have s: "sorted_wrt (\<lambda>a b. record_key b < record_key a) (rev ?ys)"
    by (simp add: sorted_wrt_rev)
  have n: "\<forall>r \<in> set (rev ?ys). fst (snd r) \<noteq> NaN"
    using assms(2) by (simp add: has_nan_iff)
  have "sorted_wrt ranks_before (rev ?ys)"
    by (rule sorted_wrt_mono_rel[OF _ s]) (simp add: ranks_before_iff n)
  then show ?thesis
    using assms(2) by (simp add: sort_reverse_def)
qed

lemma length_zip4_le: "length (zip4 sols objs behs it) \<le> length sols"
  by (induction sols objs behs it rule: zip4.induct) (auto split: option.splits)

lemma added_pair: "added (status, val) = (status = NEW \<or> status = IMPROVE_EXISTING)"
  by (simp add: added_def)

lemma add_loop_shape:
  "\<exists>calls'.
     add_loop C i rows (arch, rd, n, calls) =
       (snd (insertions C arch rows),
        rd @ map (\<lambda>(j, status, val). (status, val, j)) (enumerate i (outcomes calls')),
        n + int (length (filter added (outcomes calls'))), calls @ calls') \<and>
     outcomes calls' = fst (insertions C arch rows) \<and>
     adds calls' = rows \<and> length (outcomes calls') = length rows \<and>
     tolds calls' = [] \<and> stops calls' = [] \<and> elites calls' = [] \<and> resets calls' = []"
proof (induction rows arbitrary: i arch rd n calls)
  case Nil
  show ?case
    by (rule exI[of _ "[]"])
       (simp add: adds_def outcomes_def tolds_def stops_def elites_def resets_def)
next
  case (Cons row rows)
  obtain sol obj beh meta where row: "row = (sol, obj, beh, meta)"
    by (cases row) auto
  obtain status val entry arch1 where a: "add C arch sol obj beh meta = ((status, val, entry), arch1)"
    by (metis prod_cases3 surj_pair)
  let ?c = "ArchiveAdd sol obj beh meta status val"
  from Cons.IH[of "Suc i" arch1 "rd @ [(status, val, i)]"
      "(if status = NEW \<or> status = IMPROVE_EXISTING then n + 1 else n)" "calls @ [?c]"]
  obtain calls' where
    IH: "add_loop C (Suc i) rows (arch1, rd @ [(status, val, i)],
           (if status = NEW \<or> status = IMPROVE_EXISTING then n + 1 else n), calls @ [?c]) =
         (snd (insertions C arch1 rows),
          (rd @ [(status, val, i)]) @ map (\<lambda>(j, status, val). (status, val, j)) (enumerate (Suc i) (outcomes calls')),
          (if status = NEW \<or> status = IMPROVE_EXISTING then n + 1 else n) + int (length (filter added (outcomes calls'))),
          (calls @ [?c]) @ calls')"
    and ins: "outcomes calls' = fst (insertions C arch1 rows)"
    and rest: "adds calls' = rows" "length (outcomes calls') = length rows"
       "tolds calls' = []" "stops calls' = []" "elites calls' = []" "resets calls' = []"
    by blast
  obtain answers arch2 where i2: "insertions C arch1 rows = (answers, arch2)"
    by (cases "insertions C arch1 rows")
  show ?case
    apply (rule exI[of _ "?c # calls'"])
    using rest ins
    apply (simp add: row a IH i2 adds_def outcomes_def tolds_def stops_def elites_def resets_def added_pair)
    done
qed

lemma indices_records: "map (\<lambda>(status, val, i). i) (records calls) = [0..<length (outcomes calls)]"
proof -
  have "map (\<lambda>(status, val, i). i) (records calls) = map fst (enumerate 0 (outcomes calls))"
    by (simp add: records_def case_prod_unfold comp_def)
  then show ?thesis by simp
qed

lemma length_records: "length (records calls) = length (outcomes calls)"
  by (simp add: records_def)

lemma distinct_records: "distinct (records calls)"
proof -
  have "distinct (map (\<lambda>(status, val, i). i) (records calls))"
    by (simp add: indices_records)
  then show ?thesis by (simp add: distinct_map)
qed

lemma set_indices_sort_reverse:
  "set (map (\<lambda>(status, val, i). i) (sort_reverse f (records calls))) = {0..<length (outcomes calls)}"
proof -
  have "set (map (\<lambda>(status, val, i). i) (sort_reverse f (records calls))) =
        (\<lambda>(status, val, i). i) ` set (sort_reverse f (records calls))"
    by simp
  also have "set (sort_reverse f (records calls)) = set (records calls)"
    by (rule set_sort_reverse)
  also have "(\<lambda>(status, val, i). i) ` set (records calls) = set (map (\<lambda>(status, val, i). i) (records calls))"
    by simp
  also have "\<dots> = {0..<length (outcomes calls)}"
    by (simp only: indices_records set_upt)
  finally show ?thesis .
qed

lemma take_rows_ok:
  assumes "set indices \<subseteq> {0..<length xs}"
  shows "take_rows xs indices = Inr (map (\<lambda>i. xs ! i) indices)"
  using assms by (auto simp: take_rows_def list_all_iff)

lemma tell_shape:
  "\<exists>calls1 arch1 stop o2.
     adds calls1 = zip4 sols objs behs (meta_iter_of metadata) \<and>
     length (outcomes calls1) = length (zip4 sols objs behs (meta_iter_of metadata)) \<and>
     tolds calls1 = [] \<and> stops calls1 = [] \<and> elites calls1 = [] \<and> resets calls1 = [] \<and>
     outcomes calls1 = fst (insertions C (archive e) (zip4 sols objs behs (meta_iter_of metadata))) \<and>
     arch1 = snd (insertions C (archive e) (zip4 sols objs behs (meta_iter_of metadata))) \<and>
     opt_check_stop C
       (opt_tell C (opt e)
          (map (\<lambda>(status, val, i). sols ! i) (sort_reverse (nan_order C) (records calls1)))
          (if selection_rule e = ''filter'' then Some (new_sols_of calls1) else num_parents e))
       (map (\<lambda>(status, val, i). val) (sort_reverse (nan_order C) (records calls1))) = (stop, o2) \<and>
     tell C e sols objs behs metadata =
       Inr (calls1 @
              [OptTell (map (\<lambda>(status, val, i). sols ! i) (sort_reverse (nan_order C) (records calls1)))
                 (if selection_rule e = ''filter'' then Some (new_sols_of calls1) else num_parents e),
               OptCheckStop (map (\<lambda>(status, val, i). val) (sort_reverse (nan_order C) (records calls1))) stop] @
              (if stop \<or> check_restart e (new_sols_of calls1)
               then [ArchiveGetRandomElite (fst (fst (get_random_elite C arch1))),
                     OptReset (fst (fst (get_random_elite C arch1)))]
               else []),
            if stop \<or> check_restart e (new_sols_of calls1)
            then e\<lparr>archive := snd (get_random_elite C arch1),
                   opt := opt_reset C o2 (fst (fst (get_random_elite C arch1))),
                   restarts := restarts e + 1\<rparr>
            else e\<lparr>archive := arch1, opt := o2\<rparr>)"
proof -
  let ?rows = "zip4 sols objs behs (meta_iter_of metadata)"
  define arch1 where "arch1 = snd (insertions C (archive e) ?rows)"
  from add_loop_shape[of C 0 ?rows "archive e" "[]" 0 "[]"]
  obtain calls1 where
    loop: "add_loop C 0 ?rows (archive e, [], 0, []) =
             (arch1, records calls1, new_sols_of calls1, calls1)"
    and props: "adds calls1 = ?rows" "length (outcomes calls1) = length ?rows"
      "tolds calls1 = []" "stops calls1 = []" "elites calls1 = []" "resets calls1 = []"
    and ins: "outcomes calls1 = fst (insertions C (archive e) ?rows)"
    by (auto simp: records_def new_sols_of_def arch1_def)
  let ?ranking = "sort_reverse (nan_order C) (records calls1)"
  let ?indices = "map (\<lambda>(status, val, i). i) ?ranking"
  let ?ranked = "map (\<lambda>(status, val, i). sols ! i) ?ranking"
  let ?parents = "if selection_rule e = ''filter'' then Some (new_sols_of calls1) else num_parents e"
  let ?vals = "map (\<lambda>(status, val, i). val) ?ranking"
  have "set ?indices \<subseteq> {0..<length sols}"
    using set_indices_sort_reverse[of "nan_order C" calls1] props(2) length_zip4_le[of sols objs behs "meta_iter_of metadata"]
    by auto
  then have "take_rows sols ?indices = Inr (map (\<lambda>i. sols ! i) ?indices)"
    by (rule take_rows_ok)
  then have rows: "take_rows sols ?indices = Inr ?ranked"
    by (simp add: comp_def case_prod_unfold)
  obtain stop o2 where cs: "opt_check_stop C (opt_tell C (opt e) ?ranked ?parents) ?vals = (stop, o2)"
    by (cases "opt_check_stop C (opt_tell C (opt e) ?ranked ?parents) ?vals")
  obtain elite arch2 where el: "get_random_elite C arch1 = (elite, arch2)"
    by (cases "get_random_elite C arch1")
  have "tell C e sols objs behs metadata =
       Inr (calls1 @ [OptTell ?ranked ?parents, OptCheckStop ?vals stop] @
              (if stop \<or> check_restart e (new_sols_of calls1)
               then [ArchiveGetRandomElite (fst (fst (get_random_elite C arch1))),
                     OptReset (fst (fst (get_random_elite C arch1)))]
               else []),
            if stop \<or> check_restart e (new_sols_of calls1)
            then e\<lparr>archive := snd (get_random_elite C arch1),
                   opt := opt_reset C o2 (fst (fst (get_random_elite C arch1))),
                   restarts := restarts e + 1\<rparr>
            else e\<lparr>archive := arch1, opt := o2\<rparr>)"
    unfolding tell_def loop
    apply (simp add: Let_def rows cs split del: if_split)
    apply (cases "stop \<or> check_restart e (new_sols_of calls1)")
     apply (simp_all add: el Let_def)
    done
  with props ins arch1_def cs show ?thesis by blast
qed

lemma zip4_repeat:
  "zip4 sols objs behs Repeat_None =
     map (\<lambda>(sol, obj, beh). (sol, obj, beh, None)) (zip sols (zip objs behs))"
proof (induction sols arbitrary: objs behs)
  case Nil
  show ?case by simp
next
  case (Cons sol sols)
  show ?case
    by (cases objs; cases behs) (simp_all add: Cons.IH)
qed

lemma zip4_items: "zip4 sols objs behs (Items ms) = zip sols (zip objs (zip behs ms))"
proof (induction sols arbitrary: objs behs ms)
  case Nil
  show ?case by simp
next
  case (Cons sol sols)
  show ?case
    by (cases objs; cases behs; cases ms) (simp_all add: Cons.IH)
qed

lemma reads_append [simp]:
  "adds (xs @ ys) = adds xs @ adds ys"
  "outcomes (xs @ ys) = outcomes xs @ outcomes ys"
  "tolds (xs @ ys) = tolds xs @ tolds ys"
  "stops (xs @ ys) = stops xs @ stops ys"
  "elites (xs @ ys) = elites xs @ elites ys"
  "resets (xs @ ys) = resets xs @ resets ys"
  by (simp_all add: adds_def outcomes_def tolds_def stops_def elites_def resets_def)

lemma reads_Cons [simp]:
  "adds (c # cs) = add_of c @ adds cs"
  "outcomes (c # cs) = outcome_of c @ outcomes cs"
  "tolds (c # cs) = told_of c @ tolds cs"
  "stops (c # cs) = stop_of c @ stops cs"
  "elites (c # cs) = elite_of c @ elites cs"
  "resets (c # cs) = reset_of c @ resets cs"
  by (simp_all add: adds_def outcomes_def tolds_def stops_def elites_def resets_def)

lemma reads_Nil [simp]:
  "adds [] = []" "outcomes [] = []" "tolds [] = []" "stops [] = []" "elites [] = []" "resets [] = []"
  by (simp_all add: adds_def outcomes_def tolds_def stops_def elites_def resets_def)

lemma records_cong: "outcomes xs = outcomes ys \<Longrightarrow> records xs = records ys"
  by (simp add: records_def)

lemma new_sols_of_cong: "outcomes xs = outcomes ys \<Longrightarrow> new_sols_of xs = new_sols_of ys"
  by (simp add: new_sols_of_def)

lemma tell_observed:
  "\<exists>calls e' stop arch1 o2.
     tell C e sols objs behs metadata = Inr (calls, e') \<and>
     adds calls = zip4 sols objs behs (meta_iter_of metadata) \<and>
     length (outcomes calls) = length (zip4 sols objs behs (meta_iter_of metadata)) \<and>
     tolds calls =
       [(map (\<lambda>(status, val, i). sols ! i) (sort_reverse (nan_order C) (records calls)),
         if selection_rule e = ''filter'' then Some (new_sols_of calls) else num_parents e)] \<and>
     stops calls = [(map (\<lambda>(status, val, i). val) (sort_reverse (nan_order C) (records calls)), stop)] \<and>
     elites calls =
       (if stop \<or> check_restart e (new_sols_of calls)
        then [fst (fst (get_random_elite C arch1))] else []) \<and>
     resets calls = elites calls \<and>
     outcomes calls = fst (insertions C (archive e) (zip4 sols objs behs (meta_iter_of metadata))) \<and>
     arch1 = snd (insertions C (archive e) (zip4 sols objs behs (meta_iter_of metadata))) \<and>
     opt_check_stop C
       (opt_tell C (opt e)
          (map (\<lambda>(status, val, i). sols ! i) (sort_reverse (nan_order C) (records calls)))
          (if selection_rule e = ''filter'' then Some (new_sols_of calls) else num_parents e))
       (map (\<lambda>(status, val, i). val) (sort_reverse (nan_order C) (records calls))) = (stop, o2) \<and>
     e' = (if stop \<or> check_restart e (new_sols_of calls)
           then e\<lparr>archive := snd (get_random_elite C arch1),
                  opt := opt_reset C o2 (fst (fst (get_random_elite C arch1))),
                  restarts := restarts e + 1\<rparr>
           else e\<lparr>archive := arch1, opt := o2\<rparr>)"
proof -
  from tell_shape[of sols objs behs metadata C e]
  obtain calls1 arch1 stop o2 where
    a: "adds calls1 = zip4 sols objs behs (meta_iter_of metadata)"
    and l: "length (outcomes calls1) = length (zip4 sols objs behs (meta_iter_of metadata))"
    and n: "tolds calls1 = []" "stops calls1 = []" "elites calls1 = []" "resets calls1 = []"
    and ins: "outcomes calls1 = fst (insertions C (archive e) (zip4 sols objs behs (meta_iter_of metadata)))"
    and ar: "arch1 = snd (insertions C (archive e) (zip4 sols objs behs (meta_iter_of metadata)))"
    and cs: "opt_check_stop C
       (opt_tell C (opt e)
          (map (\<lambda>(status, val, i). sols ! i) (sort_reverse (nan_order C) (records calls1)))
          (if selection_rule e = ''filter'' then Some (new_sols_of calls1) else num_parents e))
       (map (\<lambda>(status, val, i). val) (sort_reverse (nan_order C) (records calls1))) = (stop, o2)"
    and t: "tell C e sols objs behs metadata =
       Inr (calls1 @
              [OptTell (map (\<lambda>(status, val, i). sols ! i) (sort_reverse (nan_order C) (records calls1)))
                 (if selection_rule e = ''filter'' then Some (new_sols_of calls1) else num_parents e),
               OptCheckStop (map (\<lambda>(status, val, i). val) (sort_reverse (nan_order C) (records calls1))) stop] @
              (if stop \<or> check_restart e (new_sols_of calls1)
               then [ArchiveGetRandomElite (fst (fst (get_random_elite C arch1))),
                     OptReset (fst (fst (get_random_elite C arch1)))]
               else []),
            if stop \<or> check_restart e (new_sols_of calls1)
            then e\<lparr>archive := snd (get_random_elite C arch1),
                   opt := opt_reset C o2 (fst (fst (get_random_elite C arch1))),
                   restarts := restarts e + 1\<rparr>
            else e\<lparr>archive := arch1, opt := o2\<rparr>)"
    by blast
  define calls where "calls = calls1 @
              [OptTell (map (\<lambda>(status, val, i). sols ! i) (sort_reverse (nan_order C) (records calls1)))
                 (if selection_rule e = ''filter'' then Some (new_sols_of calls1) else num_parents e),
               OptCheckStop (map (\<lambda>(status, val, i). val) (sort_reverse (nan_order C) (records calls1))) stop] @
              (if stop \<or> check_restart e (new_sols_of calls1)
               then [ArchiveGetRandomElite (fst (fst (get_random_elite C arch1))),
                     OptReset (fst (fst (get_random_elite C arch1)))]
               else [])"
  have o: "outcomes calls = outcomes calls1"
    by (simp add: calls_def)
  have r: "records calls = records calls1" and ns: "new_sols_of calls = new_sols_of calls1"
    using o by (rule records_cong, rule new_sols_of_cong)
  have 1: "adds calls = zip4 sols objs behs (meta_iter_of metadata)"
    using a by (simp add: calls_def)
  have 2: "tolds calls =
       [(map (\<lambda>(status, val, i). sols ! i) (sort_reverse (nan_order C) (records calls)),
         if selection_rule e = ''filter'' then Some (new_sols_of calls) else num_parents e)]"
    unfolding r ns using n by (simp add: calls_def)
  have 3: "stops calls = [(map (\<lambda>(status, val, i). val) (sort_reverse (nan_order C) (records calls)), stop)]"
    unfolding r using n by (simp add: calls_def)
  have 4: "elites calls =
       (if stop \<or> check_restart e (new_sols_of calls)
        then [fst (fst (get_random_elite C arch1))] else [])"
    unfolding ns using n by (simp add: calls_def)
  have 5: "resets calls = elites calls"
    using n by (simp add: calls_def)
  have 0: "tell C e sols objs behs metadata =
       Inr (calls,
            if stop \<or> check_restart e (new_sols_of calls)
            then e\<lparr>archive := snd (get_random_elite C arch1),
                   opt := opt_reset C o2 (fst (fst (get_random_elite C arch1))),
                   restarts := restarts e + 1\<rparr>
            else e\<lparr>archive := arch1, opt := o2\<rparr>)"
    apply (simp only: ns)
    apply (simp only: calls_def)
    apply (rule t)
    done
  have 6: "length (outcomes calls) = length (zip4 sols objs behs (meta_iter_of metadata))"
    unfolding o by (rule l)
  have 7: "outcomes calls = fst (insertions C (archive e) (zip4 sols objs behs (meta_iter_of metadata)))"
    unfolding o by (rule ins)
  have 8: "opt_check_stop C
       (opt_tell C (opt e)
          (map (\<lambda>(status, val, i). sols ! i) (sort_reverse (nan_order C) (records calls)))
          (if selection_rule e = ''filter'' then Some (new_sols_of calls) else num_parents e))
       (map (\<lambda>(status, val, i). val) (sort_reverse (nan_order C) (records calls))) = (stop, o2)"
    unfolding r ns by (rule cs)
  from 0 1 6 2 3 4 5 7 ar 8 show ?thesis by blast
qed

lemma length_zip4:
  "length (zip4 sols objs behs (meta_iter_of metadata)) =
     (case metadata of
        None \<Rightarrow> min (length sols) (min (length objs) (length behs))
      | Some ms \<Rightarrow> min (length sols) (min (length objs) (min (length behs) (length ms))))"
  by (cases metadata) (simp_all add: meta_iter_of_def zip4_repeat zip4_items)

subsection \<open>What a call leaves unchanged\<close>

lemma tell_frame:
  assumes "tell C e sols objs behs metadata = Inr (calls, e')"
  shows "e' = e\<lparr>archive := archive e', opt := opt e', restarts := restarts e'\<rparr>"
proof -
  from tell_observed[of C e sols objs behs metadata] assms
  obtain stop arch1 o2 where
    "e' = (if stop \<or> check_restart e (new_sols_of calls)
           then e\<lparr>archive := snd (get_random_elite C arch1),
                  opt := opt_reset C o2 (fst (fst (get_random_elite C arch1))),
                  restarts := restarts e + 1\<rparr>
           else e\<lparr>archive := arch1, opt := o2\<rparr>)"
    by auto
  then show ?thesis
    by (cases "stop \<or> check_restart e (new_sols_of calls)") simp_all
qed

lemma ask_frame:
  assumes "ask C e g = (batch, e')"
  shows "e' = e\<lparr>opt := opt e'\<rparr>"
  using assms by (auto simp: ask_def split: prod.splits)

lemma run_frame:
  "run C e cmds = Inr (obs, e') \<Longrightarrow>
     e' = e\<lparr>archive := archive e', opt := opt e', restarts := restarts e'\<rparr>"
proof (induction cmds arbitrary: e obs)
  case Nil
  then show ?case by simp
next
  case (Cons cmd cmds)
  show ?case
  proof (cases cmd)
    case (Ask g)
    obtain batch e1 where a: "ask C e g = (batch, e1)"
      by (cases "ask C e g")
    with Cons.prems Ask obtain obs1 where r: "run C e1 cmds = Inr (obs1, e')"
      by (auto split: sum.splits)
    from ask_frame[OF a] have 1: "e1 = e\<lparr>opt := opt e1\<rparr>" .
    from Cons.IH[OF r] have 2: "e' = e1\<lparr>archive := archive e', opt := opt e', restarts := restarts e'\<rparr>" .
    show ?thesis
      by (subst 2, subst 1) simp
  next
    case (Tell sols objs behs metadata)
    with Cons.prems obtain calls e1 obs1 where
      t: "tell C e sols objs behs metadata = Inr (calls, e1)"
      and r: "run C e1 cmds = Inr (obs1, e')"
      by (auto split: sum.splits)
    from tell_frame[OF t]
    have 1: "e1 = e\<lparr>archive := archive e1, opt := opt e1, restarts := restarts e1\<rparr>" .
    from Cons.IH[OF r] have 2: "e' = e1\<lparr>archive := archive e', opt := opt e', restarts := restarts e'\<rparr>" .
    show ?thesis
      by (subst 2, subst 1) simp
  qed
qed

lemma run_total: "\<exists>obs e'. run C e cmds = Inr (obs, e')"
proof (induction cmds arbitrary: e)
  case Nil
  show ?case by simp
next
  case (Cons cmd cmds)
  show ?case
  proof (cases cmd)
    case (Ask g)
    obtain batch e1 where a: "ask C e g = (batch, e1)"
      by (cases "ask C e g")
    from Cons.IH[of e1] obtain obs e' where "run C e1 cmds = Inr (obs, e')" by blast
    with a Ask show ?thesis by simp
  next
    case (Tell sols objs behs metadata)
    from tell_observed[of C e sols objs behs metadata]
    obtain calls e1 where t: "tell C e sols objs behs metadata = Inr (calls, e1)" by blast
    from Cons.IH[of e1] obtain obs e' where "run C e1 cmds = Inr (obs, e')" by blast
    with t Tell show ?thesis by simp
  qed
qed

lemma init_fields:
  assumes "emitter_init C entropy arch x sigma selection restart weight_rule bnds requested seed = Inr e0"
  shows "selection_rule e0 = selection" and "restart_rule e0 = restart"
    and "selection = ''mu'' \<or> selection = ''filter''"
    and "restart = ''basic'' \<or> restart = ''no_improvement''"
    and "num_parents e0 = (if selection = ''mu'' then Some (batch_size e0 div 2) else None)"
    and "batch_size e0 = opt_batch_size C (opt e0)"
    and "restarts e0 = 0"
  using assms
  by (auto simp: emitter_init_def Let_def split: if_splits sum.splits prod.splits)

subsection \<open>Runs of the examples\<close>

lemmas ex_defs = tell_def toy_def ex_emitter_def ex_sols_def ex_behs_def meta_iter_of_def
        sort_reverse_def has_nan_def take_rows_def check_restart_def less_add_status_def
        less_eq_add_status_def Let_def

lemma ex_init:
  "selection \<in> set [''mu'', ''filter''] \<Longrightarrow> restart \<in> set [''basic'', ''no_improvement''] \<Longrightarrow>
   emitter_init toy (\<lambda>k. 0) 0 [0] (1 / 2) selection restart ''truncation'' None (Some 3) (Some 7) =
     Inr (ex_emitter selection restart)"
  by (auto simp: emitter_init_def toy_def ex_emitter_def default_rng_def
        derive_opt_seed_def CMAEvolutionStrategy_def Let_def)

lemma ex_run_ask:
  "run toy (ex_emitter selection restart) [Ask False] =
     Inr ([Batch [[7], [7], [7]]], (ex_emitter selection restart)\<lparr>opt := (8, 3, [0])\<rparr>)"
  by (simp add: ask_def toy_def ex_emitter_def numeral_3_eq_3)




lemma ex_tell_restart:
  "tell toy (ex_emitter ''filter'' ''no_improvement'') ex_sols [Num 0, Num 0, Num 0] ex_behs None =
     Inr ([ArchiveAdd [1] (Num 0) [0] None NOT_ADDED (Num 0),
           ArchiveAdd [2] (Num 0) [0] None NOT_ADDED (Num 0),
           ArchiveAdd [3] (Num 0) [0] None NOT_ADDED (Num 0),
           OptTell [[3], [2], [1]] (Some 0), OptCheckStop [Num 0, Num 0, Num 0] False,
           ArchiveGetRandomElite [3], OptReset [3]],
          (ex_emitter ''filter'' ''no_improvement'')\<lparr>archive := 3, opt := (7, 3, [3]), restarts := 1\<rparr>)"
  by (simp add: ex_defs)

lemma ex_tell_quiet:
  "tell toy (ex_emitter ''filter'' ''basic'') ex_sols [Num 0, Num 0, Num 0] ex_behs None =
     Inr ([ArchiveAdd [1] (Num 0) [0] None NOT_ADDED (Num 0),
           ArchiveAdd [2] (Num 0) [0] None NOT_ADDED (Num 0),
           ArchiveAdd [3] (Num 0) [0] None NOT_ADDED (Num 0),
           OptTell [[3], [2], [1]] (Some 0), OptCheckStop [Num 0, Num 0, Num 0] False],
          (ex_emitter ''filter'' ''basic'')\<lparr>archive := 3\<rparr>)"
  by (simp add: ex_defs)

lemma ex_tell_improved:
  "tell toy (ex_emitter ''filter'' ''no_improvement'') ex_sols [Num 0, Num 2, Num 1] ex_behs None =
     Inr ([ArchiveAdd [1] (Num 0) [0] None NOT_ADDED (Num 0),
           ArchiveAdd [2] (Num 2) [0] None NEW (Num 2),
           ArchiveAdd [3] (Num 1) [0] None IMPROVE_EXISTING (Num 1),
           OptTell [[2], [3], [1]] (Some 2), OptCheckStop [Num 2, Num 1, Num 0] False],
          (ex_emitter ''filter'' ''no_improvement'')\<lparr>archive := 3\<rparr>)"
  by (simp add: ex_defs)

lemma ex_tell_stop:
  "tell toy (ex_emitter ''mu'' ''basic'') ex_sols [Num 200, Num 0, Num 0] ex_behs None =
     Inr ([ArchiveAdd [1] (Num 200) [0] None NEW (Num 200),
           ArchiveAdd [2] (Num 0) [0] None NOT_ADDED (Num 0),
           ArchiveAdd [3] (Num 0) [0] None NOT_ADDED (Num 0),
           OptTell [[1], [3], [2]] (Some 1), OptCheckStop [Num 200, Num 0, Num 0] True,
           ArchiveGetRandomElite [3], OptReset [3]],
          (ex_emitter ''mu'' ''basic'')\<lparr>archive := 3, opt := (7, 3, [3]), restarts := 1\<rparr>)"
  by (simp add: ex_defs)

lemma ex_tell_both:
  "tell toy (ex_emitter ''filter'' ''no_improvement'') ex_sols [Num (- 200), Num 0, Num 0] ex_behs None =
     Inr ([ArchiveAdd [1] (Num (- 200)) [0] None NOT_ADDED (Num (- 200)),
           ArchiveAdd [2] (Num 0) [0] None NOT_ADDED (Num 0),
           ArchiveAdd [3] (Num 0) [0] None NOT_ADDED (Num 0),
           OptTell [[3], [2], [1]] (Some 0), OptCheckStop [Num 0, Num 0, Num (- 200)] True,
           ArchiveGetRandomElite [3], OptReset [3]],
          (ex_emitter ''filter'' ''no_improvement'')\<lparr>archive := 3, opt := (7, 3, [3]), restarts := 1\<rparr>)"
  by (simp add: ex_defs)

lemma ex_tell_mixed:
  "tell toy (ex_emitter ''filter'' ''basic'') ex_sols [Num 0, Num 2, Num 1] ex_behs None =
     Inr ([ArchiveAdd [1] (Num 0) [0] None NOT_ADDED (Num 0),
           ArchiveAdd [2] (Num 2) [0] None NEW (Num 2),
           ArchiveAdd [3] (Num 1) [0] None IMPROVE_EXISTING (Num 1),
           OptTell [[2], [3], [1]] (Some 2), OptCheckStop [Num 2, Num 1, Num 0] False],
          (ex_emitter ''filter'' ''basic'')\<lparr>archive := 3\<rparr>)"
  by (simp add: ex_defs)



subsection \<open>The number of parents\<close>

lemma told_parents:
  assumes "emitter_init C entropy arch x sigma selection restart weight_rule bnds requested seed = Inr e0"
    and "run C e0 cmds = Inr (obs, e)"
  shows "\<exists>calls e' ranked.
     tell C e sols objs behs metadata = Inr (calls, e') \<and>
     batch_size e0 = opt_batch_size C (opt e0) \<and>
     (selection = ''filter'' \<or> selection = ''mu'') \<and>
     (selection = ''filter'' \<longrightarrow> tolds calls = [(ranked, Some (new_sols_of calls))]) \<and>
     (selection = ''mu'' \<longrightarrow> tolds calls = [(ranked, Some (batch_size e0 div 2))])"
proof -
  from run_frame[OF assms(2)]
  have fr: "e = e0\<lparr>archive := archive e, opt := opt e, restarts := restarts e\<rparr>" .
  have sel: "selection_rule e = selection"
    by (subst fr) (simp add: init_fields(1)[OF assms(1)])
  have np: "num_parents e = (if selection = ''mu'' then Some (batch_size e0 div 2) else None)"
    by (subst fr) (simp add: init_fields(5)[OF assms(1)])
  from tell_observed[of C e sols objs behs metadata]
  obtain calls e' where
    t: "tell C e sols objs behs metadata = Inr (calls, e')"
    and f: "tolds calls =
       [(map (\<lambda>(status, val, i). sols ! i) (sort_reverse (nan_order C) (records calls)),
         if selection_rule e = ''filter'' then Some (new_sols_of calls) else num_parents e)]"
    by blast
  have 1: "selection = ''filter'' \<longrightarrow>
      tolds calls = [(map (\<lambda>(status, val, i). sols ! i) (sort_reverse (nan_order C) (records calls)),
                      Some (new_sols_of calls))]"
    using f sel by simp
  have 2: "selection = ''mu'' \<longrightarrow>
      tolds calls = [(map (\<lambda>(status, val, i). sols ! i) (sort_reverse (nan_order C) (records calls)),
                      Some (batch_size e0 div 2))]"
    using f sel np by simp
  from t init_fields(6)[OF assms(1)] init_fields(3)[OF assms(1)] 1 2 show ?thesis by blast
qed



text \<open>
  Claim C10. When the sequences given to \<^verbatim>\<open>tell\<close> all have the length
  \<^verbatim>\<open>batch_size\<close>, the number of parents passed to \<^verbatim>\<open>Optimizer.tell\<close> lies between
  0 and \<^verbatim>\<open>batch_size\<close>: under \<^verbatim>\<open>filter\<close> it counts insertions of the batch, under
  \<^verbatim>\<open>mu\<close> it is half of \<^verbatim>\<open>batch_size\<close>, rounded down.
\<close>

theorem num_parents_bounds:
  assumes "emitter_init C entropy arch x sigma selection restart weight_rule bnds requested seed = Inr e0"
    and "run C e0 cmds = Inr (obs, e)"
    and "int (length sols) = batch_size e"
    and "length objs = length sols"
    and "length behs = length sols"
    and "case metadata of None \<Rightarrow> True | Some ms \<Rightarrow> length ms = length sols"
  shows "\<exists>calls e' ranked n.
     tell C e sols objs behs metadata = Inr (calls, e') \<and>
     tolds calls = [(ranked, Some n)] \<and> 0 \<le> n \<and> n \<le> batch_size e \<and>
     (selection = ''filter'' \<longrightarrow> n = new_sols_of calls) \<and>
     (selection = ''mu'' \<longrightarrow> n = batch_size e div 2)"
proof -
  from run_frame[OF assms(2)]
  have fr: "e = e0\<lparr>archive := archive e, opt := opt e, restarts := restarts e\<rparr>" .
  have bs: "batch_size e = batch_size e0"
    by (subst fr) simp
  from told_parents[OF assms(1,2), of sols objs behs metadata]
  obtain calls e' ranked where
    t: "tell C e sols objs behs metadata = Inr (calls, e')"
    and s: "selection = ''filter'' \<or> selection = ''mu''"
    and f: "selection = ''filter'' \<longrightarrow> tolds calls = [(ranked, Some (new_sols_of calls))]"
    and m: "selection = ''mu'' \<longrightarrow> tolds calls = [(ranked, Some (batch_size e0 div 2))]"
    by blast
  from tell_observed[of C e sols objs behs metadata] t
  have l: "length (outcomes calls) = length (zip4 sols objs behs (meta_iter_of metadata))"
    by auto
  have n: "length (outcomes calls) = length sols"
    using assms(4-6) unfolding l length_zip4 by (cases metadata) simp_all
  have "length (filter added (outcomes calls)) \<le> length (outcomes calls)"
    by (rule length_filter_le)
  then have c: "0 \<le> new_sols_of calls \<and> new_sols_of calls \<le> batch_size e"
    using n assms(3) by (simp add: new_sols_of_def)
  have h: "0 \<le> batch_size e div 2 \<and> batch_size e div 2 \<le> batch_size e"
    using assms(3) by (metis div_by_1 of_nat_0_le_iff one_le_numeral pos_imp_zdiv_nonneg_iff zdiv_mono2 zero_less_one zero_less_numeral)
  show ?thesis
  proof (cases "selection = ''filter''")
    case True
    with f c t show ?thesis by auto
  next
    case False
    with s have mu: "selection = ''mu''" by simp
    with m have "tolds calls = [(ranked, Some (batch_size e div 2))]"
      by (simp add: bs)
    with h t mu show ?thesis by auto
  qed
qed

theorem num_parents_bounds_witness:
  "emitter_init toy (\<lambda>k. 0) 0 [0] (1 / 2) ''mu'' ''basic'' ''truncation'' None (Some 3) (Some 7) =
     Inr (ex_emitter ''mu'' ''basic'') \<and>
   run toy (ex_emitter ''mu'' ''basic'') [Ask False] =
     Inr ([Batch [[7], [7], [7]]], (ex_emitter ''mu'' ''basic'')\<lparr>opt := (8, 3, [0])\<rparr>) \<and>
   int (length ex_sols) = batch_size ((ex_emitter ''mu'' ''basic'')\<lparr>opt := (8, 3, [0])\<rparr>) \<and>
   length [Num 0, Num 2, Num 1] = length ex_sols \<and> length ex_behs = length ex_sols \<and>
   (\<exists>calls e' ranked n.
      tell toy ((ex_emitter ''mu'' ''basic'')\<lparr>opt := (8, 3, [0])\<rparr>) ex_sols [Num 0, Num 2, Num 1] ex_behs None =
        Inr (calls, e') \<and>
      tolds calls = [(ranked, Some n)] \<and> 0 \<le> n \<and> n \<le> 3 \<and> n = 1)"
proof -
  have i: "emitter_init toy (\<lambda>k. 0) 0 [0] (1 / 2) ''mu'' ''basic'' ''truncation'' None (Some 3) (Some 7) =
     Inr (ex_emitter ''mu'' ''basic'')"
    by (rule ex_init) simp_all
  have r: "run toy (ex_emitter ''mu'' ''basic'') [Ask False] =
     Inr ([Batch [[7], [7], [7]]], (ex_emitter ''mu'' ''basic'')\<lparr>opt := (8, 3, [0])\<rparr>)"
    by (rule ex_run_ask)
  have h1: "int (length ex_sols) = batch_size ((ex_emitter ''mu'' ''basic'')\<lparr>opt := (8, 3, [0])\<rparr>)"
    by (simp add: ex_sols_def ex_emitter_def)
  have h2: "length [Num 0, Num 2, Num 1] = length ex_sols"
    by (simp add: ex_sols_def)
  have h3: "length ex_behs = length ex_sols"
    by (simp add: ex_sols_def ex_behs_def)
  have h4: "case (None :: nat option list option) of None \<Rightarrow> True | Some ms \<Rightarrow> length ms = length ex_sols"
    by simp
  from num_parents_bounds[OF i r h1 h2 h3 h4]
  obtain calls e' ranked n where
    t: "tell toy ((ex_emitter ''mu'' ''basic'')\<lparr>opt := (8, 3, [0])\<rparr>) ex_sols [Num 0, Num 2, Num 1] ex_behs None =
        Inr (calls, e')"
    and p: "tolds calls = [(ranked, Some n)]" "0 \<le> n"
      "n \<le> batch_size ((ex_emitter ''mu'' ''basic'')\<lparr>opt := (8, 3, [0])\<rparr>)"
      "n = batch_size ((ex_emitter ''mu'' ''basic'')\<lparr>opt := (8, 3, [0])\<rparr>) div 2"
    by auto
  have b: "batch_size ((ex_emitter ''mu'' ''basic'')\<lparr>opt := (8, 3, [0])\<rparr>) = 3"
    by (simp add: ex_emitter_def)
  from p(3) have 1: "n \<le> 3" by (simp add: b)
  from p(4) have 2: "n = 1" by (simp add: b)
  from i r h1 h2 h3 t p(1,2) 1 2 show ?thesis by blast
qed

subsection \<open>Effects of a call\<close>

text \<open>
  Claim C9, as the code has it. A call to \<^verbatim>\<open>tell\<close> changes at most the archive, the
  optimizer and the restart counter. Every other field of the emitter is unchanged: its
  random generator, which \<^verbatim>\<open>tell\<close> never uses, and \<^verbatim>\<open>x0\<close>, \<^verbatim>\<open>sigma0\<close>,
  \<^verbatim>\<open>batch_size\<close>, the two rules and the precomputed number of parents. The source
  returns no value; the model returns the calls made and the new state.
\<close>

theorem tell_effects:
  "\<exists>calls e'.
     tell C e sols objs behs metadata = Inr (calls, e') \<and>
     e' = e\<lparr>archive := archive e', opt := opt e', restarts := restarts e'\<rparr> \<and>
     rng e' = rng e \<and>
     x0 e' = x0 e \<and> sigma0 e' = sigma0 e \<and> batch_size e' = batch_size e \<and>
     selection_rule e' = selection_rule e \<and> restart_rule e' = restart_rule e \<and>
     num_parents e' = num_parents e"
proof -
  from tell_observed[of C e sols objs behs metadata]
  obtain calls e' where t: "tell C e sols objs behs metadata = Inr (calls, e')"
    by blast
  from tell_frame[OF t]
  have fr: "e' = e\<lparr>archive := archive e', opt := opt e', restarts := restarts e'\<rparr>" .
  have 1: "rng e' = rng e" by (subst fr) simp
  have 2: "x0 e' = x0 e" by (subst fr) simp
  have 3: "sigma0 e' = sigma0 e" by (subst fr) simp
  have 4: "batch_size e' = batch_size e" by (subst fr) simp
  have 5: "selection_rule e' = selection_rule e" by (subst fr) simp
  have 6: "restart_rule e' = restart_rule e" by (subst fr) simp
  have 7: "num_parents e' = num_parents e" by (subst fr) simp
  from t fr 1 2 3 4 5 6 7 show ?thesis by blast
qed

theorem tell_effects_witness:
  "\<exists>calls e'.
     tell toy (ex_emitter ''filter'' ''no_improvement'') ex_sols [Num 0, Num 0, Num 0] ex_behs None = Inr (calls, e') \<and>
     resets calls = [[3]] \<and>
     archive e' = 3 \<and> opt e' = (7, 3, [3]) \<and> restarts e' = 1 \<and>
     rng e' = 8 \<and> x0 e' = [0] \<and> sigma0 e' = 1 / 2 \<and> batch_size e' = 3 \<and>
     selection_rule e' = ''filter'' \<and> restart_rule e' = ''no_improvement'' \<and>
     num_parents e' = None"
proof -
  from tell_effects[of toy "ex_emitter ''filter'' ''no_improvement''" ex_sols "[Num 0, Num 0, Num 0]" ex_behs None]
  obtain calls e' where
    t: "tell toy (ex_emitter ''filter'' ''no_improvement'') ex_sols [Num 0, Num 0, Num 0] ex_behs None = Inr (calls, e')"
    and k: "rng e' = rng (ex_emitter ''filter'' ''no_improvement'')"
      "x0 e' = x0 (ex_emitter ''filter'' ''no_improvement'')"
      "sigma0 e' = sigma0 (ex_emitter ''filter'' ''no_improvement'')"
      "batch_size e' = batch_size (ex_emitter ''filter'' ''no_improvement'')"
      "selection_rule e' = selection_rule (ex_emitter ''filter'' ''no_improvement'')"
      "restart_rule e' = restart_rule (ex_emitter ''filter'' ''no_improvement'')"
      "num_parents e' = num_parents (ex_emitter ''filter'' ''no_improvement'')"
    by blast
  from t have c: "calls = [ArchiveAdd [1] (Num 0) [0] None NOT_ADDED (Num 0),
           ArchiveAdd [2] (Num 0) [0] None NOT_ADDED (Num 0),
           ArchiveAdd [3] (Num 0) [0] None NOT_ADDED (Num 0),
           OptTell [[3], [2], [1]] (Some 0), OptCheckStop [Num 0, Num 0, Num 0] False,
           ArchiveGetRandomElite [3], OptReset [3]]"
    and e: "e' = (ex_emitter ''filter'' ''no_improvement'')\<lparr>archive := 3, opt := (7, 3, [3]), restarts := 1\<rparr>"
    by (simp_all add: ex_tell_restart)
  have 1: "resets calls = [[3]]" by (simp add: c)
  have 2: "archive e' = 3" "opt e' = (7, 3, [3])" "restarts e' = 1"
    by (simp_all add: e)
  from k have 3: "rng e' = 8" "x0 e' = [0]" "sigma0 e' = 1 / 2" "batch_size e' = 3"
    "selection_rule e' = ''filter''" "restart_rule e' = ''no_improvement''" "num_parents e' = None"
    by (simp_all add: ex_emitter_def)
  from t 1 2 3 show ?thesis by blast
qed

text \<open>
  A call that restarts, drawing an elite from the archive: the emitter's generator is the
  same before and after.
\<close>

theorem tell_rng_counterexample:
  "tell toy (ex_emitter ''filter'' ''no_improvement'') ex_sols [Num 0, Num 0, Num 0] ex_behs None =
     Inr ([ArchiveAdd [1] (Num 0) [0] None NOT_ADDED (Num 0),
           ArchiveAdd [2] (Num 0) [0] None NOT_ADDED (Num 0),
           ArchiveAdd [3] (Num 0) [0] None NOT_ADDED (Num 0),
           OptTell [[3], [2], [1]] (Some 0), OptCheckStop [Num 0, Num 0, Num 0] False,
           ArchiveGetRandomElite [3], OptReset [3]],
          (ex_emitter ''filter'' ''no_improvement'')\<lparr>archive := 3, opt := (7, 3, [3]), restarts := 1\<rparr>) \<and>
   rng ((ex_emitter ''filter'' ''no_improvement'')\<lparr>archive := 3, opt := (7, 3, [3]), restarts := 1\<rparr>) =
     rng (ex_emitter ''filter'' ''no_improvement'')"
  by (simp add: ex_tell_restart)

subsection \<open>Restarts\<close>

lemma tell_restarts:
  "\<exists>calls e' ranked parents vals stop x.
     tell C e sols objs behs metadata = Inr (calls, e') \<and>
     outcomes calls =
       fst (insertions C (archive e) (zip4 sols objs behs (meta_iter_of metadata))) \<and>
     tolds calls = [(ranked, parents)] \<and>
     stops calls = [(vals, stop)] \<and>
     stop = fst (opt_check_stop C (opt_tell C (opt e) ranked parents) vals) \<and>
     x = fst (fst (get_random_elite C
           (snd (insertions C (archive e) (zip4 sols objs behs (meta_iter_of metadata)))))) \<and>
     (if stop \<or> restart_rule e = ''no_improvement'' \<and> new_sols_of calls = 0
      then elites calls = [x] \<and> resets calls = [x] \<and> restarts e' = restarts e + 1 \<and>
           opt e' = opt_reset C (snd (opt_check_stop C (opt_tell C (opt e) ranked parents) vals)) x
      else elites calls = [] \<and> resets calls = [] \<and> restarts e' = restarts e \<and>
           opt e' = snd (opt_check_stop C (opt_tell C (opt e) ranked parents) vals))"
proof -
  let ?rows = "zip4 sols objs behs (meta_iter_of metadata)"
  from tell_observed[of C e sols objs behs metadata]
  obtain calls e' stop arch1 o2 where
    t: "tell C e sols objs behs metadata = Inr (calls, e')"
    and f: "tolds calls =
       [(map (\<lambda>(status, val, i). sols ! i) (sort_reverse (nan_order C) (records calls)),
         if selection_rule e = ''filter'' then Some (new_sols_of calls) else num_parents e)]"
    and s: "stops calls = [(map (\<lambda>(status, val, i). val) (sort_reverse (nan_order C) (records calls)), stop)]"
    and el: "elites calls =
       (if stop \<or> check_restart e (new_sols_of calls)
        then [fst (fst (get_random_elite C arch1))] else [])"
    and re: "resets calls = elites calls"
    and ins: "outcomes calls = fst (insertions C (archive e) ?rows)"
    and ar: "arch1 = snd (insertions C (archive e) ?rows)"
    and cs: "opt_check_stop C
       (opt_tell C (opt e)
          (map (\<lambda>(status, val, i). sols ! i) (sort_reverse (nan_order C) (records calls)))
          (if selection_rule e = ''filter'' then Some (new_sols_of calls) else num_parents e))
       (map (\<lambda>(status, val, i). val) (sort_reverse (nan_order C) (records calls))) = (stop, o2)"
    and e': "e' = (if stop \<or> check_restart e (new_sols_of calls)
           then e\<lparr>archive := snd (get_random_elite C arch1),
                  opt := opt_reset C o2 (fst (fst (get_random_elite C arch1))),
                  restarts := restarts e + 1\<rparr>
           else e\<lparr>archive := arch1, opt := o2\<rparr>)"
    by blast
  let ?ranked = "map (\<lambda>(status, val, i). sols ! i) (sort_reverse (nan_order C) (records calls))"
  let ?parents = "if selection_rule e = ''filter'' then Some (new_sols_of calls) else num_parents e"
  let ?vals = "map (\<lambda>(status, val, i). val) (sort_reverse (nan_order C) (records calls))"
  let ?x = "fst (fst (get_random_elite C (snd (insertions C (archive e) ?rows))))"
  have c: "check_restart e (new_sols_of calls) =
           (restart_rule e = ''no_improvement'' \<and> new_sols_of calls = 0)"
    by (simp add: check_restart_def)
  have 1: "stop = fst (opt_check_stop C (opt_tell C (opt e) ?ranked ?parents) ?vals)"
    by (simp add: cs)
  have 2: "if stop \<or> restart_rule e = ''no_improvement'' \<and> new_sols_of calls = 0
      then elites calls = [?x] \<and> resets calls = [?x] \<and> restarts e' = restarts e + 1 \<and>
           opt e' = opt_reset C (snd (opt_check_stop C (opt_tell C (opt e) ?ranked ?parents) ?vals)) ?x
      else elites calls = [] \<and> resets calls = [] \<and> restarts e' = restarts e \<and>
           opt e' = snd (opt_check_stop C (opt_tell C (opt e) ?ranked ?parents) ?vals)"
    using el re e' by (simp add: c cs ar)
  from t ins f s 1 2 show ?thesis by blast
qed

text \<open>
  Claim C3. Every call to \<^verbatim>\<open>tell\<close> asks \<^verbatim>\<open>Optimizer.check_stop\<close> once, after
  \<^verbatim>\<open>Optimizer.tell\<close>, and restarts at most once. A restart draws an elite from the
  archive as the insertions left it, resets the optimizer to the elite's solution and
  adds one to the restart counter. With the rule \<^verbatim>\<open>no_improvement\<close> and no solution
  NEW or IMPROVE_EXISTING there is a restart; with this rule, some solution added and
  \<^verbatim>\<open>check_stop\<close> answering false there is none. With the rule \<^verbatim>\<open>basic\<close> there is a
  restart exactly when \<^verbatim>\<open>check_stop\<close> answers true. When \<^verbatim>\<open>check_stop\<close> answers
  true there is one restart whatever the rule and the batch, and when it answers false
  and the rule is not \<^verbatim>\<open>no_improvement\<close> with an empty count, there is none: the
  counter is unchanged and the optimizer is as \<^verbatim>\<open>check_stop\<close> left it.
\<close>

theorem tell_restart_decision:
  "\<exists>calls e' ranked parents vals stop x.
     tell C e sols objs behs metadata = Inr (calls, e') \<and>
     outcomes calls =
       fst (insertions C (archive e) (zip4 sols objs behs (meta_iter_of metadata))) \<and>
     tolds calls = [(ranked, parents)] \<and>
     stops calls = [(vals, stop)] \<and>
     stop = fst (opt_check_stop C (opt_tell C (opt e) ranked parents) vals) \<and>
     x = fst (fst (get_random_elite C
           (snd (insertions C (archive e) (zip4 sols objs behs (meta_iter_of metadata)))))) \<and>
     length (resets calls) \<le> 1 \<and>
     (restart_rule e = ''no_improvement'' \<and> new_sols_of calls = 0 \<longrightarrow>
        elites calls = [x] \<and> resets calls = [x] \<and> restarts e' = restarts e + 1 \<and>
        opt e' = opt_reset C (snd (opt_check_stop C (opt_tell C (opt e) ranked parents) vals)) x) \<and>
     (restart_rule e = ''no_improvement'' \<and> new_sols_of calls \<noteq> 0 \<and> \<not> stop \<longrightarrow>
        elites calls = [] \<and> resets calls = [] \<and> restarts e' = restarts e) \<and>
     (restart_rule e = ''basic'' \<and> \<not> stop \<longrightarrow>
        elites calls = [] \<and> resets calls = [] \<and> restarts e' = restarts e) \<and>
     (stop \<longrightarrow>
        elites calls = [x] \<and> resets calls = [x] \<and> restarts e' = restarts e + 1 \<and>
        opt e' = opt_reset C (snd (opt_check_stop C (opt_tell C (opt e) ranked parents) vals)) x) \<and>
     (\<not> stop \<and> \<not> (restart_rule e = ''no_improvement'' \<and> new_sols_of calls = 0) \<longrightarrow>
        elites calls = [] \<and> resets calls = [] \<and> restarts e' = restarts e \<and>
        opt e' = snd (opt_check_stop C (opt_tell C (opt e) ranked parents) vals))"
proof -
  from tell_restarts[of C e sols objs behs metadata]
  obtain calls e' ranked parents vals stop x where
    t: "tell C e sols objs behs metadata = Inr (calls, e')"
    and ins: "outcomes calls =
       fst (insertions C (archive e) (zip4 sols objs behs (meta_iter_of metadata)))"
    and f: "tolds calls = [(ranked, parents)]"
    and s: "stops calls = [(vals, stop)]"
    and st: "stop = fst (opt_check_stop C (opt_tell C (opt e) ranked parents) vals)"
    and x: "x = fst (fst (get_random_elite C
           (snd (insertions C (archive e) (zip4 sols objs behs (meta_iter_of metadata))))))"
    and d: "if stop \<or> restart_rule e = ''no_improvement'' \<and> new_sols_of calls = 0
      then elites calls = [x] \<and> resets calls = [x] \<and> restarts e' = restarts e + 1 \<and>
           opt e' = opt_reset C (snd (opt_check_stop C (opt_tell C (opt e) ranked parents) vals)) x
      else elites calls = [] \<and> resets calls = [] \<and> restarts e' = restarts e \<and>
           opt e' = snd (opt_check_stop C (opt_tell C (opt e) ranked parents) vals)"
    by blast
  have 1: "length (resets calls) \<le> 1"
    using d by (auto split: if_splits)
  have 2: "restart_rule e = ''no_improvement'' \<and> new_sols_of calls = 0 \<longrightarrow>
        elites calls = [x] \<and> resets calls = [x] \<and> restarts e' = restarts e + 1 \<and>
        opt e' = opt_reset C (snd (opt_check_stop C (opt_tell C (opt e) ranked parents) vals)) x"
    using d by (auto split: if_splits)
  have 3: "restart_rule e = ''no_improvement'' \<and> new_sols_of calls \<noteq> 0 \<and> \<not> stop \<longrightarrow>
        elites calls = [] \<and> resets calls = [] \<and> restarts e' = restarts e"
    using d by (auto split: if_splits)
  have 4: "restart_rule e = ''basic'' \<and> \<not> stop \<longrightarrow>
        elites calls = [] \<and> resets calls = [] \<and> restarts e' = restarts e"
    using d by (auto split: if_splits)
  have 5: "stop \<longrightarrow>
        elites calls = [x] \<and> resets calls = [x] \<and> restarts e' = restarts e + 1 \<and>
        opt e' = opt_reset C (snd (opt_check_stop C (opt_tell C (opt e) ranked parents) vals)) x"
    using d by (auto split: if_splits)
  have 6: "\<not> stop \<and> \<not> (restart_rule e = ''no_improvement'' \<and> new_sols_of calls = 0) \<longrightarrow>
        elites calls = [] \<and> resets calls = [] \<and> restarts e' = restarts e \<and>
        opt e' = snd (opt_check_stop C (opt_tell C (opt e) ranked parents) vals)"
    using d by (auto split: if_splits)
  from t ins f s st x 1 2 3 4 5 6 show ?thesis by blast
qed

theorem tell_restart_decision_witness:
  "(\<exists>calls e' vals.
      tell toy (ex_emitter ''filter'' ''no_improvement'') ex_sols [Num 0, Num 0, Num 0] ex_behs None =
        Inr (calls, e') \<and>
      restart_rule (ex_emitter ''filter'' ''no_improvement'') = ''no_improvement'' \<and>
      new_sols_of calls = 0 \<and> stops calls = [(vals, False)] \<and>
      elites calls = [[3]] \<and> resets calls = [[3]] \<and>
      restarts e' = restarts (ex_emitter ''filter'' ''no_improvement'') + 1 \<and>
      opt e' = (7, 3, [3])) \<and>
   (\<exists>calls e' vals.
      tell toy (ex_emitter ''filter'' ''no_improvement'') ex_sols [Num 0, Num 2, Num 1] ex_behs None =
        Inr (calls, e') \<and>
      new_sols_of calls = 2 \<and> stops calls = [(vals, False)] \<and>
      elites calls = [] \<and> resets calls = [] \<and>
      restarts e' = restarts (ex_emitter ''filter'' ''no_improvement'')) \<and>
   (\<exists>calls e' vals.
      tell toy (ex_emitter ''filter'' ''basic'') ex_sols [Num 0, Num 0, Num 0] ex_behs None =
        Inr (calls, e') \<and>
      restart_rule (ex_emitter ''filter'' ''basic'') = ''basic'' \<and>
      new_sols_of calls = 0 \<and> stops calls = [(vals, False)] \<and> resets calls = [] \<and>
      restarts e' = restarts (ex_emitter ''filter'' ''basic'')) \<and>
   (\<exists>calls e' vals.
      tell toy (ex_emitter ''mu'' ''basic'') ex_sols [Num 200, Num 0, Num 0] ex_behs None =
        Inr (calls, e') \<and>
      restart_rule (ex_emitter ''mu'' ''basic'') = ''basic'' \<and>
      stops calls = [(vals, True)] \<and> resets calls = [[3]] \<and>
      restarts e' = restarts (ex_emitter ''mu'' ''basic'') + 1) \<and>
   (\<exists>calls e' vals.
      tell toy (ex_emitter ''filter'' ''no_improvement'') ex_sols [Num (- 200), Num 0, Num 0] ex_behs None =
        Inr (calls, e') \<and>
      new_sols_of calls = 0 \<and> stops calls = [(vals, True)] \<and>
      resets calls = [[3]] \<and> length (resets calls) \<le> 1 \<and>
      restarts e' = restarts (ex_emitter ''filter'' ''no_improvement'') + 1)"
proof -
  have rr1: "restart_rule (ex_emitter ''filter'' ''no_improvement'') = ''no_improvement''"
    and rr2: "restart_rule (ex_emitter ''filter'' ''basic'') = ''basic''"
    and rr3: "restart_rule (ex_emitter ''mu'' ''basic'') = ''basic''"
    and ar1: "archive (ex_emitter ''filter'' ''no_improvement'') = 0"
    and ar3: "archive (ex_emitter ''mu'' ''basic'') = 0"
    by (simp_all add: ex_emitter_def)
  have el: "fst (fst (get_random_elite toy
              (snd (insertions toy 0 (zip4 ex_sols objs ex_behs (meta_iter_of None)))))) = [3]"
    if "length objs = 3" for objs :: "pyfloat list"
  proof -
    from that obtain a b c where "objs = [a, b, c]"
      by (cases objs; cases "tl objs"; cases "tl (tl objs)") auto
    then show ?thesis
      by (simp add: toy_def ex_sols_def ex_behs_def meta_iter_of_def)
  qed
  from tell_restart_decision[of toy "ex_emitter ''filter'' ''no_improvement''" ex_sols
      "[Num 0, Num 0, Num 0]" ex_behs None]
  obtain calls1 e1 ranked1 parents1 vals1 stop1 x1 where
    t1: "tell toy (ex_emitter ''filter'' ''no_improvement'') ex_sols [Num 0, Num 0, Num 0] ex_behs None =
           Inr (calls1, e1)"
    and s1: "stops calls1 = [(vals1, stop1)]"
    and x1: "x1 = fst (fst (get_random_elite toy
           (snd (insertions toy (archive (ex_emitter ''filter'' ''no_improvement''))
              (zip4 ex_sols [Num 0, Num 0, Num 0] ex_behs (meta_iter_of None))))))"
    and a1: "restart_rule (ex_emitter ''filter'' ''no_improvement'') = ''no_improvement'' \<and>
        new_sols_of calls1 = 0 \<longrightarrow>
        elites calls1 = [x1] \<and> resets calls1 = [x1] \<and>
        restarts e1 = restarts (ex_emitter ''filter'' ''no_improvement'') + 1 \<and>
        opt e1 = opt_reset toy (snd (opt_check_stop toy
                   (opt_tell toy (opt (ex_emitter ''filter'' ''no_improvement'')) ranked1 parents1) vals1)) x1"
    by blast
  from t1 have c1: "calls1 = [ArchiveAdd [1] (Num 0) [0] None NOT_ADDED (Num 0),
           ArchiveAdd [2] (Num 0) [0] None NOT_ADDED (Num 0),
           ArchiveAdd [3] (Num 0) [0] None NOT_ADDED (Num 0),
           OptTell [[3], [2], [1]] (Some 0), OptCheckStop [Num 0, Num 0, Num 0] False,
           ArchiveGetRandomElite [3], OptReset [3]]"
    by (simp add: ex_tell_restart)
  have n1: "new_sols_of calls1 = 0"
    by (simp add: c1 new_sols_of_def added_def)
  have st1: "stops calls1 = [(vals1, False)]"
    using s1 by (simp add: c1)
  have xv1: "x1 = [3]"
    unfolding x1 ar1 by (rule el) simp
  from a1 rr1 n1 have k1: "elites calls1 = [[3]]" "resets calls1 = [[3]]"
    "restarts e1 = restarts (ex_emitter ''filter'' ''no_improvement'') + 1"
    "opt e1 = opt_reset toy (snd (opt_check_stop toy
                   (opt_tell toy (opt (ex_emitter ''filter'' ''no_improvement'')) ranked1 parents1) vals1)) [3]"
    by (simp_all add: xv1)
  from k1(4) have o1: "opt e1 = (7, 3, [3])"
    by (simp add: toy_def ex_emitter_def)
  from t1 rr1 n1 st1 k1(1-3) o1 have w1: "\<exists>calls e' vals.
      tell toy (ex_emitter ''filter'' ''no_improvement'') ex_sols [Num 0, Num 0, Num 0] ex_behs None =
        Inr (calls, e') \<and>
      restart_rule (ex_emitter ''filter'' ''no_improvement'') = ''no_improvement'' \<and>
      new_sols_of calls = 0 \<and> stops calls = [(vals, False)] \<and>
      elites calls = [[3]] \<and> resets calls = [[3]] \<and>
      restarts e' = restarts (ex_emitter ''filter'' ''no_improvement'') + 1 \<and>
      opt e' = (7, 3, [3])"
    by blast
  from tell_restart_decision[of toy "ex_emitter ''filter'' ''no_improvement''" ex_sols
      "[Num 0, Num 2, Num 1]" ex_behs None]
  obtain calls5 e5 ranked5 parents5 vals5 stop5 x5 where
    t5: "tell toy (ex_emitter ''filter'' ''no_improvement'') ex_sols [Num 0, Num 2, Num 1] ex_behs None =
           Inr (calls5, e5)"
    and s5: "stops calls5 = [(vals5, stop5)]"
    and a5: "restart_rule (ex_emitter ''filter'' ''no_improvement'') = ''no_improvement'' \<and>
        new_sols_of calls5 \<noteq> 0 \<and> \<not> stop5 \<longrightarrow>
        elites calls5 = [] \<and> resets calls5 = [] \<and>
        restarts e5 = restarts (ex_emitter ''filter'' ''no_improvement'')"
    by blast
  from t5 have c5: "calls5 = [ArchiveAdd [1] (Num 0) [0] None NOT_ADDED (Num 0),
           ArchiveAdd [2] (Num 2) [0] None NEW (Num 2),
           ArchiveAdd [3] (Num 1) [0] None IMPROVE_EXISTING (Num 1),
           OptTell [[2], [3], [1]] (Some 2), OptCheckStop [Num 2, Num 1, Num 0] False]"
    by (simp add: ex_tell_improved)
  have n5: "new_sols_of calls5 = 2"
    by (simp add: c5 new_sols_of_def added_def)
  have f5: "\<not> stop5"
    using s5 by (simp add: c5)
  then have st5: "stops calls5 = [(vals5, False)]"
    using s5 by simp
  from a5 rr1 n5 f5 have k5: "elites calls5 = []" "resets calls5 = []"
    "restarts e5 = restarts (ex_emitter ''filter'' ''no_improvement'')"
    by simp_all
  from t5 n5 st5 k5 have w5: "\<exists>calls e' vals.
      tell toy (ex_emitter ''filter'' ''no_improvement'') ex_sols [Num 0, Num 2, Num 1] ex_behs None =
        Inr (calls, e') \<and>
      new_sols_of calls = 2 \<and> stops calls = [(vals, False)] \<and>
      elites calls = [] \<and> resets calls = [] \<and>
      restarts e' = restarts (ex_emitter ''filter'' ''no_improvement'')"
    by blast
  from tell_restart_decision[of toy "ex_emitter ''filter'' ''basic''" ex_sols
      "[Num 0, Num 0, Num 0]" ex_behs None]
  obtain calls2 e2 ranked2 parents2 vals2 stop2 x2 where
    t2: "tell toy (ex_emitter ''filter'' ''basic'') ex_sols [Num 0, Num 0, Num 0] ex_behs None =
           Inr (calls2, e2)"
    and s2: "stops calls2 = [(vals2, stop2)]"
    and b2: "restart_rule (ex_emitter ''filter'' ''basic'') = ''basic'' \<and> \<not> stop2 \<longrightarrow>
        elites calls2 = [] \<and> resets calls2 = [] \<and>
        restarts e2 = restarts (ex_emitter ''filter'' ''basic'')"
    by blast
  from t2 have c2: "calls2 = [ArchiveAdd [1] (Num 0) [0] None NOT_ADDED (Num 0),
           ArchiveAdd [2] (Num 0) [0] None NOT_ADDED (Num 0),
           ArchiveAdd [3] (Num 0) [0] None NOT_ADDED (Num 0),
           OptTell [[3], [2], [1]] (Some 0), OptCheckStop [Num 0, Num 0, Num 0] False]"
    by (simp add: ex_tell_quiet)
  have n2: "new_sols_of calls2 = 0"
    by (simp add: c2 new_sols_of_def added_def)
  have f2: "\<not> stop2"
    using s2 by (simp add: c2)
  then have st2: "stops calls2 = [(vals2, False)]"
    using s2 by simp
  from b2 rr2 f2 have k2: "resets calls2 = []" "restarts e2 = restarts (ex_emitter ''filter'' ''basic'')"
    by simp_all
  from t2 rr2 n2 st2 k2 have w2: "\<exists>calls e' vals.
      tell toy (ex_emitter ''filter'' ''basic'') ex_sols [Num 0, Num 0, Num 0] ex_behs None =
        Inr (calls, e') \<and>
      restart_rule (ex_emitter ''filter'' ''basic'') = ''basic'' \<and>
      new_sols_of calls = 0 \<and> stops calls = [(vals, False)] \<and> resets calls = [] \<and>
      restarts e' = restarts (ex_emitter ''filter'' ''basic'')"
    by blast
  from tell_restart_decision[of toy "ex_emitter ''mu'' ''basic''" ex_sols
      "[Num 200, Num 0, Num 0]" ex_behs None]
  obtain calls3 e3 ranked3 parents3 vals3 stop3 x3 where
    t3: "tell toy (ex_emitter ''mu'' ''basic'') ex_sols [Num 200, Num 0, Num 0] ex_behs None =
           Inr (calls3, e3)"
    and s3: "stops calls3 = [(vals3, stop3)]"
    and x3: "x3 = fst (fst (get_random_elite toy
           (snd (insertions toy (archive (ex_emitter ''mu'' ''basic''))
              (zip4 ex_sols [Num 200, Num 0, Num 0] ex_behs (meta_iter_of None))))))"
    and b3: "stop3 \<longrightarrow>
        elites calls3 = [x3] \<and> resets calls3 = [x3] \<and>
        restarts e3 = restarts (ex_emitter ''mu'' ''basic'') + 1 \<and>
        opt e3 = opt_reset toy (snd (opt_check_stop toy
                   (opt_tell toy (opt (ex_emitter ''mu'' ''basic'')) ranked3 parents3) vals3)) x3"
    by blast
  from t3 have c3: "calls3 = [ArchiveAdd [1] (Num 200) [0] None NEW (Num 200),
           ArchiveAdd [2] (Num 0) [0] None NOT_ADDED (Num 0),
           ArchiveAdd [3] (Num 0) [0] None NOT_ADDED (Num 0),
           OptTell [[1], [3], [2]] (Some 1), OptCheckStop [Num 200, Num 0, Num 0] True,
           ArchiveGetRandomElite [3], OptReset [3]]"
    by (simp add: ex_tell_stop)
  have f3: "stop3"
    using s3 by (simp add: c3)
  then have st3: "stops calls3 = [(vals3, True)]"
    using s3 by simp
  have xv3: "x3 = [3]"
    unfolding x3 ar3 by (rule el) simp
  from b3 f3 have k3: "resets calls3 = [[3]]" "restarts e3 = restarts (ex_emitter ''mu'' ''basic'') + 1"
    by (simp_all add: xv3)
  from t3 rr3 st3 k3 have w3: "\<exists>calls e' vals.
      tell toy (ex_emitter ''mu'' ''basic'') ex_sols [Num 200, Num 0, Num 0] ex_behs None =
        Inr (calls, e') \<and>
      restart_rule (ex_emitter ''mu'' ''basic'') = ''basic'' \<and>
      stops calls = [(vals, True)] \<and> resets calls = [[3]] \<and>
      restarts e' = restarts (ex_emitter ''mu'' ''basic'') + 1"
    by blast
  from tell_restart_decision[of toy "ex_emitter ''filter'' ''no_improvement''" ex_sols
      "[Num (- 200), Num 0, Num 0]" ex_behs None]
  obtain calls4 e4 ranked4 parents4 vals4 stop4 x4 where
    t4: "tell toy (ex_emitter ''filter'' ''no_improvement'') ex_sols [Num (- 200), Num 0, Num 0] ex_behs None =
           Inr (calls4, e4)"
    and s4: "stops calls4 = [(vals4, stop4)]"
    and x4: "x4 = fst (fst (get_random_elite toy
           (snd (insertions toy (archive (ex_emitter ''filter'' ''no_improvement''))
              (zip4 ex_sols [Num (- 200), Num 0, Num 0] ex_behs (meta_iter_of None))))))"
    and l4: "length (resets calls4) \<le> 1"
    and b4: "stop4 \<longrightarrow>
        elites calls4 = [x4] \<and> resets calls4 = [x4] \<and>
        restarts e4 = restarts (ex_emitter ''filter'' ''no_improvement'') + 1 \<and>
        opt e4 = opt_reset toy (snd (opt_check_stop toy
                   (opt_tell toy (opt (ex_emitter ''filter'' ''no_improvement'')) ranked4 parents4) vals4)) x4"
    by blast
  from t4 have c4: "calls4 = [ArchiveAdd [1] (Num (- 200)) [0] None NOT_ADDED (Num (- 200)),
           ArchiveAdd [2] (Num 0) [0] None NOT_ADDED (Num 0),
           ArchiveAdd [3] (Num 0) [0] None NOT_ADDED (Num 0),
           OptTell [[3], [2], [1]] (Some 0), OptCheckStop [Num 0, Num 0, Num (- 200)] True,
           ArchiveGetRandomElite [3], OptReset [3]]"
    by (simp add: ex_tell_both)
  have n4: "new_sols_of calls4 = 0"
    by (simp add: c4 new_sols_of_def added_def)
  have f4: "stop4"
    using s4 by (simp add: c4)
  then have st4: "stops calls4 = [(vals4, True)]"
    using s4 by simp
  have xv4: "x4 = [3]"
    unfolding x4 ar1 by (rule el) simp
  from b4 f4 have k4: "resets calls4 = [[3]]"
    "restarts e4 = restarts (ex_emitter ''filter'' ''no_improvement'') + 1"
    by (simp_all add: xv4)
  from t4 n4 st4 k4 l4 have w4: "\<exists>calls e' vals.
      tell toy (ex_emitter ''filter'' ''no_improvement'') ex_sols [Num (- 200), Num 0, Num 0] ex_behs None =
        Inr (calls, e') \<and>
      new_sols_of calls = 0 \<and> stops calls = [(vals, True)] \<and>
      resets calls = [[3]] \<and> length (resets calls) \<le> 1 \<and>
      restarts e' = restarts (ex_emitter ''filter'' ''no_improvement'') + 1"
    by blast
  from w1 w5 w2 w3 w4 show ?thesis by (intro conjI)
qed

subsection \<open>Lengths and metadata\<close>

lemma zip_replicate_None:
  "length ys \<le> n \<Longrightarrow> zip ys (replicate n x) = map (\<lambda>y. (y, x)) ys"
proof (induction ys arbitrary: n)
  case Nil
  show ?case by simp
next
  case (Cons y ys)
  then obtain k where "n = Suc k" by (cases n) auto
  with Cons show ?case by simp
qed

lemma zip4_replicate:
  assumes "length behs \<le> n"
  shows "zip4 sols objs behs (Items (replicate n None)) = zip4 sols objs behs Repeat_None"
proof -
  have "zip sols (zip objs (zip behs (replicate n None))) =
        map (\<lambda>(sol, obj, beh). (sol, obj, beh, None)) (zip sols (zip objs behs))"
    by (simp add: zip_replicate_None[OF assms] zip_map2 case_prod_unfold)
  then show ?thesis
    by (simp add: zip4_items zip4_repeat)
qed

lemma tell_inserts:
  "\<exists>calls e'.
     tell C e sols objs behs metadata = Inr (calls, e') \<and>
     adds calls = zip4 sols objs behs (meta_iter_of metadata) \<and>
     length (records calls) = length (adds calls) \<and>
     outcomes calls = fst (insertions C (archive e) (adds calls)) \<and>
     archive e' =
       (if resets calls = [] then snd (insertions C (archive e) (adds calls))
        else snd (get_random_elite C (snd (insertions C (archive e) (adds calls)))))"
proof -
  from tell_observed[of C e sols objs behs metadata]
  obtain calls e' stop arch1 o2 where
    t: "tell C e sols objs behs metadata = Inr (calls, e')"
    and a: "adds calls = zip4 sols objs behs (meta_iter_of metadata)"
    and l: "length (outcomes calls) = length (zip4 sols objs behs (meta_iter_of metadata))"
    and el: "elites calls =
       (if stop \<or> check_restart e (new_sols_of calls)
        then [fst (fst (get_random_elite C arch1))] else [])"
    and re: "resets calls = elites calls"
    and ins: "outcomes calls =
       fst (insertions C (archive e) (zip4 sols objs behs (meta_iter_of metadata)))"
    and ar: "arch1 = snd (insertions C (archive e) (zip4 sols objs behs (meta_iter_of metadata)))"
    and e': "e' = (if stop \<or> check_restart e (new_sols_of calls)
           then e\<lparr>archive := snd (get_random_elite C arch1),
                  opt := opt_reset C o2 (fst (fst (get_random_elite C arch1))),
                  restarts := restarts e + 1\<rparr>
           else e\<lparr>archive := arch1, opt := o2\<rparr>)"
    by blast
  have 1: "length (records calls) = length (adds calls)"
    by (simp add: length_records l a)
  have 2: "outcomes calls = fst (insertions C (archive e) (adds calls))"
    by (simp add: a ins)
  have 3: "archive e' =
       (if resets calls = [] then snd (insertions C (archive e) (adds calls))
        else snd (get_random_elite C (snd (insertions C (archive e) (adds calls)))))"
    by (simp add: re el e' a ar)
  from t a 1 2 3 show ?thesis by blast
qed



text \<open>
  Claim C8. When the metadata is omitted and the other sequences have the length
  \<^verbatim>\<open>batch_size\<close>, the call is the same as with a sequence of \<^verbatim>\<open>batch_size\<close> markers
  \<^verbatim>\<open>None\<close>: each of the \<^verbatim>\<open>batch_size\<close> solutions is inserted into the archive with
  the marker, one answer of \<^verbatim>\<open>Archive.add\<close> is recorded for each, and the archive is
  left as these insertions leave it.
\<close>

theorem tell_without_metadata:
  assumes "int (length sols) = batch_size e"
    and "length objs = length sols"
    and "length behs = length sols"
  shows "tell C e sols objs behs None =
           tell C e sols objs behs (Some (replicate (nat (batch_size e)) None)) \<and>
         (\<exists>calls e'.
            tell C e sols objs behs None = Inr (calls, e') \<and>
            int (length (adds calls)) = batch_size e \<and>
            adds calls = map (\<lambda>(sol, obj, beh). (sol, obj, beh, None)) (zip sols (zip objs behs)) \<and>
            int (length (outcomes calls)) = batch_size e \<and>
            outcomes calls = fst (insertions C (archive e) (adds calls)) \<and>
            archive e' =
              (if resets calls = [] then snd (insertions C (archive e) (adds calls))
               else snd (get_random_elite C (snd (insertions C (archive e) (adds calls))))))"
proof -
  have n: "nat (batch_size e) = length sols"
    using assms(1) by simp
  have z: "zip4 sols objs behs (Items (replicate (nat (batch_size e)) None)) =
        zip4 sols objs behs Repeat_None"
    by (rule zip4_replicate) (simp add: n assms(3))
  have 1: "tell C e sols objs behs None =
           tell C e sols objs behs (Some (replicate (nat (batch_size e)) None))"
    by (simp only: tell_def meta_iter_of_def option.case z)
  from tell_inserts[of C e sols objs behs None]
  obtain calls e' where
    t: "tell C e sols objs behs None = Inr (calls, e')"
    and a: "adds calls = zip4 sols objs behs (meta_iter_of None)"
    and r: "length (records calls) = length (adds calls)"
    and o: "outcomes calls = fst (insertions C (archive e) (adds calls))"
    and ar: "archive e' =
       (if resets calls = [] then snd (insertions C (archive e) (adds calls))
        else snd (get_random_elite C (snd (insertions C (archive e) (adds calls)))))"
    by blast
  have 2: "adds calls = map (\<lambda>(sol, obj, beh). (sol, obj, beh, None)) (zip sols (zip objs behs))"
    unfolding a by (simp add: meta_iter_of_def zip4_repeat)
  have 3: "int (length (adds calls)) = batch_size e"
    unfolding 2 using assms by simp
  have 4: "int (length (outcomes calls)) = batch_size e"
    using r 3 by (simp add: length_records)
  from 1 t 2 3 4 o ar show ?thesis by blast
qed

theorem tell_without_metadata_witness:
  "int (length ex_sols) = batch_size (ex_emitter ''filter'' ''basic'') \<and>
   length [Num 0, Num 2, Num 1] = length ex_sols \<and> length ex_behs = length ex_sols \<and>
   tell toy (ex_emitter ''filter'' ''basic'') ex_sols [Num 0, Num 2, Num 1] ex_behs None =
     tell toy (ex_emitter ''filter'' ''basic'') ex_sols [Num 0, Num 2, Num 1] ex_behs
       (Some [None, None, None]) \<and>
   (\<exists>calls e'.
      tell toy (ex_emitter ''filter'' ''basic'') ex_sols [Num 0, Num 2, Num 1] ex_behs None =
        Inr (calls, e') \<and>
      adds calls = [([1], Num 0, [0], None), ([2], Num 2, [0], None), ([3], Num 1, [0], None)] \<and>
      outcomes calls = [(NOT_ADDED, Num 0), (NEW, Num 2), (IMPROVE_EXISTING, Num 1)] \<and>
      resets calls = [] \<and> archive (ex_emitter ''filter'' ''basic'') = 0 \<and> archive e' = 3)"
proof -
  have h1: "int (length ex_sols) = batch_size (ex_emitter ''filter'' ''basic'')"
    by (simp add: ex_sols_def ex_emitter_def)
  have h2: "length [Num 0, Num 2, Num 1] = length ex_sols"
    by (simp add: ex_sols_def)
  have h3: "length ex_behs = length ex_sols"
    by (simp add: ex_sols_def ex_behs_def)
  have b: "replicate (nat (batch_size (ex_emitter ''filter'' ''basic''))) (None :: nat option) =
           [None, None, None]"
    by (simp add: ex_emitter_def numeral_3_eq_3)
  from tell_without_metadata[OF h1 h2 h3, of toy]
  obtain calls e' where
    q: "tell toy (ex_emitter ''filter'' ''basic'') ex_sols [Num 0, Num 2, Num 1] ex_behs None =
        tell toy (ex_emitter ''filter'' ''basic'') ex_sols [Num 0, Num 2, Num 1] ex_behs
          (Some [None, None, None])"
    and t: "tell toy (ex_emitter ''filter'' ''basic'') ex_sols [Num 0, Num 2, Num 1] ex_behs None =
          Inr (calls, e')"
    and a: "adds calls = map (\<lambda>(sol, obj, beh). (sol, obj, beh, None))
                           (zip ex_sols (zip [Num 0, Num 2, Num 1] ex_behs))"
    and o: "outcomes calls = fst (insertions toy (archive (ex_emitter ''filter'' ''basic'')) (adds calls))"
    and ar: "archive e' =
       (if resets calls = []
        then snd (insertions toy (archive (ex_emitter ''filter'' ''basic'')) (adds calls))
        else snd (get_random_elite toy
               (snd (insertions toy (archive (ex_emitter ''filter'' ''basic'')) (adds calls)))))"
    unfolding b by blast
  have 1: "adds calls = [([1], Num 0, [0], None), ([2], Num 2, [0], None), ([3], Num 1, [0], None)]"
    using a by (simp add: ex_sols_def ex_behs_def)
  have z: "archive (ex_emitter ''filter'' ''basic'') = 0"
    by (simp add: ex_emitter_def)
  have 2: "outcomes calls = [(NOT_ADDED, Num 0), (NEW, Num 2), (IMPROVE_EXISTING, Num 1)]"
    using o by (simp add: 1 z toy_def)
  from t have 3: "resets calls = []"
    by (auto simp: ex_tell_mixed)
  have 4: "archive e' = 3"
    using ar by (simp add: 3 1 z toy_def)
  from h1 h2 h3 q t 1 2 3 z 4 show ?thesis by blast
qed

subsection \<open>Ranking\<close>

lemma tell_ranking:
  "\<exists>calls e' ranking parents stop.
     tell C e sols objs behs metadata = Inr (calls, e') \<and>
     outcomes calls =
       fst (insertions C (archive e) (zip4 sols objs behs (meta_iter_of metadata))) \<and>
     length (outcomes calls) = length (zip4 sols objs behs (meta_iter_of metadata)) \<and>
     mset ranking = mset (records calls) \<and>
     tolds calls = [(map (\<lambda>(status, val, i). sols ! i) ranking, parents)] \<and>
     stops calls = [(map (\<lambda>(status, val, i). val) ranking, stop)] \<and>
     (\<not> has_nan (records calls) \<longrightarrow> sorted_wrt ranks_before ranking)"
proof -
  from tell_observed[of C e sols objs behs metadata]
  obtain calls e' stop where
    t: "tell C e sols objs behs metadata = Inr (calls, e')"
    and l: "length (outcomes calls) = length (zip4 sols objs behs (meta_iter_of metadata))"
    and f: "tolds calls =
       [(map (\<lambda>(status, val, i). sols ! i) (sort_reverse (nan_order C) (records calls)),
         if selection_rule e = ''filter'' then Some (new_sols_of calls) else num_parents e)]"
    and s: "stops calls =
       [(map (\<lambda>(status, val, i). val) (sort_reverse (nan_order C) (records calls)), stop)]"
    and ins: "outcomes calls =
       fst (insertions C (archive e) (zip4 sols objs behs (meta_iter_of metadata)))"
    by blast
  have 1: "mset (sort_reverse (nan_order C) (records calls)) = mset (records calls)"
    by (rule mset_sort_reverse)
  have 2: "\<not> has_nan (records calls) \<longrightarrow>
           sorted_wrt ranks_before (sort_reverse (nan_order C) (records calls))"
    by (simp add: sorted_sort_reverse distinct_records)
  from t ins l 1 f s 2 show ?thesis by blast
qed






subsection \<open>The values given to the stop check\<close>

text \<open>
  Claim C4, as the code has it. \<^verbatim>\<open>ranking_data\<close> is sorted in place before the values
  are read from it, so the improvement values passed to \<^verbatim>\<open>Optimizer.check_stop\<close> are
  those that \<^verbatim>\<open>Archive.add\<close> answered, in the order in which the sort left the
  records. It is the order in which the solutions are passed to \<^verbatim>\<open>Optimizer.tell\<close>
  (the ranked order, when no value is NaN), not the order of the batch.
\<close>

theorem check_stop_values_ranked:
  "\<exists>calls e' ranking parents stop.
     tell C e sols objs behs metadata = Inr (calls, e') \<and>
     outcomes calls =
       fst (insertions C (archive e) (zip4 sols objs behs (meta_iter_of metadata))) \<and>
     mset ranking = mset (records calls) \<and>
     tolds calls = [(map (\<lambda>(status, val, i). sols ! i) ranking, parents)] \<and>
     stops calls = [(map (\<lambda>(status, val, i). val) ranking, stop)] \<and>
     (\<not> has_nan (records calls) \<longrightarrow> sorted_wrt ranks_before ranking)"
proof -
  from tell_ranking[of C e sols objs behs metadata]
  obtain calls e' ranking parents stop where
    t: "tell C e sols objs behs metadata = Inr (calls, e')"
    and ins: "outcomes calls =
       fst (insertions C (archive e) (zip4 sols objs behs (meta_iter_of metadata)))"
    and m: "mset ranking = mset (records calls)"
    and f: "tolds calls = [(map (\<lambda>(status, val, i). sols ! i) ranking, parents)]"
    and s: "stops calls = [(map (\<lambda>(status, val, i). val) ranking, stop)]"
    and o: "\<not> has_nan (records calls) \<longrightarrow> sorted_wrt ranks_before ranking"
    by blast
  from t ins m f s o show ?thesis by blast
qed

theorem check_stop_values_ranked_witness:
  "\<exists>calls e' ranking parents stop.
     tell toy (ex_emitter ''filter'' ''basic'') ex_sols [Num 0, Num 2, Num 1] ex_behs None =
       Inr (calls, e') \<and>
     outcomes calls = [(NOT_ADDED, Num 0), (NEW, Num 2), (IMPROVE_EXISTING, Num 1)] \<and>
     \<not> has_nan (records calls) \<and>
     mset ranking = mset (records calls) \<and>
     sorted_wrt ranks_before ranking \<and>
     tolds calls = [(map (\<lambda>(status, val, i). ex_sols ! i) ranking, parents)] \<and>
     stops calls = [(map (\<lambda>(status, val, i). val) ranking, stop)] \<and>
     tolds calls = [([[2], [3], [1]], Some 2)] \<and>
     stops calls = [([Num 2, Num 1, Num 0], False)]"
proof -
  from check_stop_values_ranked[of toy "ex_emitter ''filter'' ''basic''" ex_sols
      "[Num 0, Num 2, Num 1]" ex_behs None]
  obtain calls e' ranking parents stop where
    t: "tell toy (ex_emitter ''filter'' ''basic'') ex_sols [Num 0, Num 2, Num 1] ex_behs None =
          Inr (calls, e')"
    and m: "mset ranking = mset (records calls)"
    and f: "tolds calls = [(map (\<lambda>(status, val, i). ex_sols ! i) ranking, parents)]"
    and s: "stops calls = [(map (\<lambda>(status, val, i). val) ranking, stop)]"
    and o: "\<not> has_nan (records calls) \<longrightarrow> sorted_wrt ranks_before ranking"
    by blast
  from t have c: "calls = [ArchiveAdd [1] (Num 0) [0] None NOT_ADDED (Num 0),
           ArchiveAdd [2] (Num 2) [0] None NEW (Num 2),
           ArchiveAdd [3] (Num 1) [0] None IMPROVE_EXISTING (Num 1),
           OptTell [[2], [3], [1]] (Some 2), OptCheckStop [Num 2, Num 1, Num 0] False]"
    by (simp add: ex_tell_mixed)
  have oc: "outcomes calls = [(NOT_ADDED, Num 0), (NEW, Num 2), (IMPROVE_EXISTING, Num 1)]"
    by (simp add: c)
  have nn: "\<not> has_nan (records calls)"
    by (simp add: c records_def has_nan_def)
  with o have so: "sorted_wrt ranks_before ranking" by simp
  have tc: "tolds calls = [([[2], [3], [1]], Some 2)]"
    and sc: "stops calls = [([Num 2, Num 1, Num 0], False)]"
    by (simp_all add: c)
  from t oc nn m so f s tc sc show ?thesis by blast
qed

text \<open>
  A batch whose insertions return the values 0, 2 and 1, in this order: the stop check
  receives 2, 1, 0.
\<close>

theorem check_stop_order_counterexample:
  "tell toy (ex_emitter ''filter'' ''basic'') ex_sols [Num 0, Num 2, Num 1] ex_behs None =
     Inr ([ArchiveAdd [1] (Num 0) [0] None NOT_ADDED (Num 0),
           ArchiveAdd [2] (Num 2) [0] None NEW (Num 2),
           ArchiveAdd [3] (Num 1) [0] None IMPROVE_EXISTING (Num 1),
           OptTell [[2], [3], [1]] (Some 2), OptCheckStop [Num 2, Num 1, Num 0] False],
          (ex_emitter ''filter'' ''basic'')\<lparr>archive := 3\<rparr>) \<and>
   map snd (fst (insertions toy (archive (ex_emitter ''filter'' ''basic''))
      (zip4 ex_sols [Num 0, Num 2, Num 1] ex_behs (meta_iter_of None)))) = [Num 0, Num 2, Num 1] \<and>
   [Num 2, Num 1, Num 0] \<noteq> [Num 0, Num 2, Num 1]"
proof -
  have i: "map snd (fst (insertions toy (archive (ex_emitter ''filter'' ''basic''))
      (zip4 ex_sols [Num 0, Num 2, Num 1] ex_behs (meta_iter_of None)))) = [Num 0, Num 2, Num 1]"
    by (simp add: ex_emitter_def ex_sols_def ex_behs_def meta_iter_of_def toy_def)
  have d: "[Num 2, Num 1, Num 0] \<noteq> [Num 0, Num 2, Num 1]"
    by simp
  from ex_tell_mixed i d show ?thesis by (intro conjI)
qed

subsection \<open>Construction\<close>

text \<open>
  Claim C6, as the code has it. The generator, the array of \<^verbatim>\<open>x0\<close> and the base class
  are set up before any rule is checked, and an error raised there (a negative seed, for
  one) is the error of the construction, whatever the rules. Once these three steps have
  succeeded, \<^verbatim>\<open>__init__\<close> raises the emitter's own configuration error exactly when
  \<^verbatim>\<open>selection_rule\<close> is not one of mu and filter or \<^verbatim>\<open>restart_rule\<close> is not one of
  basic and no_improvement, and the message names the field and the value (the selection
  rule first when both are wrong). With both rules valid, construction then fails only
  where the optimizer's constructor does, to which the check of \<^verbatim>\<open>weight_rule\<close> is
  left, and with its error; so when the optimizer can be built, construction fails if and
  only if one of the two rules is outside its set.
\<close>

theorem init_validation:
  "(\<forall>err. default_rng C seed (entropy 0) = Inl err \<longrightarrow>
      emitter_init C entropy arch x sigma selection restart weight_rule bnds requested seed = Inl err) \<and>
   (\<forall>g0 err. default_rng C seed (entropy 0) = Inr g0 \<and> np_array C x = Inl err \<longrightarrow>
      emitter_init C entropy arch x sigma selection restart weight_rule bnds requested seed = Inl err) \<and>
   (\<forall>g0 xa err. default_rng C seed (entropy 0) = Inr g0 \<and> np_array C x = Inr xa \<and>
        base_init C (length xa) bnds = Inl err \<longrightarrow>
      emitter_init C entropy arch x sigma selection restart weight_rule bnds requested seed = Inl err) \<and>
   (\<forall>g0 xa lu. default_rng C seed (entropy 0) = Inr g0 \<and> np_array C x = Inr xa \<and>
        base_init C (length xa) bnds = Inr lu \<longrightarrow>
      (selection \<notin> set [''mu'', ''filter''] \<longrightarrow>
         emitter_init C entropy arch x sigma selection restart weight_rule bnds requested seed =
           Inl (ValueError (''Invalid selection_rule '' @ selection))) \<and>
      (selection \<in> set [''mu'', ''filter''] \<and> restart \<notin> set [''basic'', ''no_improvement''] \<longrightarrow>
         emitter_init C entropy arch x sigma selection restart weight_rule bnds requested seed =
           Inl (ValueError (''Invalid restart_rule '' @ restart))) \<and>
      (selection \<in> set [''mu'', ''filter''] \<and> restart \<in> set [''basic'', ''no_improvement''] \<longrightarrow>
         (\<forall>err.
            (emitter_init C entropy arch x sigma selection restart weight_rule bnds requested seed =
               Inl err) =
            (CMAEvolutionStrategy C (entropy 1) sigma requested (length xa) weight_rule
               (fst (derive_opt_seed C seed g0)) = Inl err))) \<and>
      ((\<exists>st. CMAEvolutionStrategy C (entropy 1) sigma requested (length xa) weight_rule
               (fst (derive_opt_seed C seed g0)) = Inr st) \<longrightarrow>
         (\<exists>err. emitter_init C entropy arch x sigma selection restart weight_rule bnds requested seed =
            Inl err) =
         (selection \<notin> set [''mu'', ''filter''] \<or> restart \<notin> set [''basic'', ''no_improvement''])))"
proof -
  let ?init = "emitter_init C entropy arch x sigma selection restart weight_rule bnds requested seed"
  have a: "\<forall>err. default_rng C seed (entropy 0) = Inl err \<longrightarrow> ?init = Inl err"
    by (simp add: emitter_init_def)
  have b: "\<forall>g0 err. default_rng C seed (entropy 0) = Inr g0 \<and> np_array C x = Inl err \<longrightarrow>
      ?init = Inl err"
    by (simp add: emitter_init_def)
  have c: "\<forall>g0 xa err. default_rng C seed (entropy 0) = Inr g0 \<and> np_array C x = Inr xa \<and>
        base_init C (length xa) bnds = Inl err \<longrightarrow> ?init = Inl err"
    by (simp add: emitter_init_def)
  have d: "(selection \<notin> set [''mu'', ''filter''] \<longrightarrow>
         ?init = Inl (ValueError (''Invalid selection_rule '' @ selection))) \<and>
      (selection \<in> set [''mu'', ''filter''] \<and> restart \<notin> set [''basic'', ''no_improvement''] \<longrightarrow>
         ?init = Inl (ValueError (''Invalid restart_rule '' @ restart))) \<and>
      (selection \<in> set [''mu'', ''filter''] \<and> restart \<in> set [''basic'', ''no_improvement''] \<longrightarrow>
         (\<forall>err. (?init = Inl err) =
            (CMAEvolutionStrategy C (entropy 1) sigma requested (length xa) weight_rule
               (fst (derive_opt_seed C seed g0)) = Inl err))) \<and>
      ((\<exists>st. CMAEvolutionStrategy C (entropy 1) sigma requested (length xa) weight_rule
               (fst (derive_opt_seed C seed g0)) = Inr st) \<longrightarrow>
         (\<exists>err. ?init = Inl err) =
         (selection \<notin> set [''mu'', ''filter''] \<or> restart \<notin> set [''basic'', ''no_improvement'']))"
    if early: "default_rng C seed (entropy 0) = Inr g0" "np_array C x = Inr xa"
      "base_init C (length xa) bnds = Inr lu" for g0 xa lu
  proof -
    let ?opt = "CMAEvolutionStrategy C (entropy 1) sigma requested (length xa) weight_rule
               (fst (derive_opt_seed C seed g0))"
    have 1: "selection \<notin> set [''mu'', ''filter''] \<longrightarrow>
         ?init = Inl (ValueError (''Invalid selection_rule '' @ selection))"
      by (simp add: emitter_init_def early)
    have 2: "selection \<in> set [''mu'', ''filter''] \<and> restart \<notin> set [''basic'', ''no_improvement''] \<longrightarrow>
         ?init = Inl (ValueError (''Invalid restart_rule '' @ restart))"
      by (auto simp: emitter_init_def early)
    have ok1: "?init = Inl err"
      if "selection \<in> set [''mu'', ''filter'']" "restart \<in> set [''basic'', ''no_improvement'']"
        "?opt = Inl err" for err
      using that by (auto simp: emitter_init_def early Let_def split: prod.splits sum.splits)
    have ok2: "\<exists>e0. ?init = Inr e0"
      if "selection \<in> set [''mu'', ''filter'']" "restart \<in> set [''basic'', ''no_improvement'']"
        "?opt = Inr st" for st
      using that by (auto simp: emitter_init_def early Let_def split: prod.splits sum.splits)
    have 3: "selection \<in> set [''mu'', ''filter''] \<and> restart \<in> set [''basic'', ''no_improvement''] \<longrightarrow>
         (\<forall>err. (?init = Inl err) = (?opt = Inl err))"
    proof (intro impI allI)
      fix err
      assume v: "selection \<in> set [''mu'', ''filter''] \<and> restart \<in> set [''basic'', ''no_improvement'']"
      show "(?init = Inl err) = (?opt = Inl err)"
      proof (cases ?opt)
        case (Inl e)
        with ok1[of e] v have "?init = Inl e" by simp
        with Inl show ?thesis by simp
      next
        case (Inr st)
        with ok2[of st] v obtain e0 where "?init = Inr e0" by blast
        with Inr show ?thesis by simp
      qed
    qed
    have 4: "(\<exists>st. ?opt = Inr st) \<longrightarrow>
         (\<exists>err. ?init = Inl err) =
         (selection \<notin> set [''mu'', ''filter''] \<or> restart \<notin> set [''basic'', ''no_improvement''])"
    proof
      assume "\<exists>st. ?opt = Inr st"
      then obtain st where st: "?opt = Inr st" ..
      show "(\<exists>err. ?init = Inl err) =
        (selection \<notin> set [''mu'', ''filter''] \<or> restart \<notin> set [''basic'', ''no_improvement''])"
      proof (cases "selection \<in> set [''mu'', ''filter''] \<and> restart \<in> set [''basic'', ''no_improvement'']")
        case True
        with ok2[OF _ _ st] obtain e0 where "?init = Inr e0" by blast
        with True show ?thesis by simp
      next
        case False
        with 1 2 show ?thesis by blast
      qed
    qed
    from 1 2 3 4 show ?thesis by (intro conjI)
  qed
  from a b c d show ?thesis by blast
qed

theorem init_validation_witness:
  "default_rng toy (Some 7) 0 = Inr 7 \<and> np_array toy [0] = Inr [0] \<and>
   base_init toy (length [0 :: real]) None = Inr ([None], [None]) \<and>
   ''best'' \<notin> set [''mu'', ''filter''] \<and>
   emitter_init toy (\<lambda>k. 0) 0 [0] (1 / 2) ''best'' ''never'' ''truncation'' None (Some 3) (Some 7) =
     Inl (ValueError ''Invalid selection_rule best'') \<and>
   ''mu'' \<in> set [''mu'', ''filter''] \<and> ''never'' \<notin> set [''basic'', ''no_improvement''] \<and>
   emitter_init toy (\<lambda>k. 0) 0 [0] (1 / 2) ''mu'' ''never'' ''truncation'' None (Some 3) (Some 7) =
     Inl (ValueError ''Invalid restart_rule never'') \<and>
   ''basic'' \<in> set [''basic'', ''no_improvement''] \<and>
   emitter_init toy (\<lambda>k. 0) 0 [0] (1 / 2) ''mu'' ''basic'' ''sum'' None (Some 3) (Some 7) =
     Inl (ValueError ''Invalid weight_rule sum'') \<and>
   CMAEvolutionStrategy toy 0 (1 / 2) (Some 3) (length [0 :: real]) ''truncation''
     (fst (derive_opt_seed toy (Some 7) 7)) = Inr (7, 3, []) \<and>
   (\<nexists>err. emitter_init toy (\<lambda>k. 0) 0 [0] (1 / 2) ''mu'' ''basic'' ''truncation'' None (Some 3) (Some 7) =
      Inl err) \<and>
   default_rng toy (Some (- 1)) 0 = Inl (ValueError ''expected non-negative integer'') \<and>
   emitter_init toy (\<lambda>k. 0) 0 [0] (1 / 2) ''best'' ''never'' ''truncation'' None (Some 3) (Some (- 1)) =
     Inl (ValueError ''expected non-negative integer'')"
proof -
  have g: "default_rng toy (Some 7) ((\<lambda>k. 0) 0) = Inr 7"
    by (simp add: default_rng_def toy_def)
  have n: "np_array toy [0] = Inr [0]"
    by (simp add: toy_def)
  have l: "base_init toy (length [0 :: real]) None = Inr ([None], [None])"
    by (simp add: toy_def)
  have a: "''best'' \<notin> set [''mu'', ''filter'']" by simp
  have b: "''mu'' \<in> set [''mu'', ''filter'']" by simp
  have c: "''never'' \<notin> set [''basic'', ''no_improvement'']" by simp
  have d: "''basic'' \<in> set [''basic'', ''no_improvement'']" by simp
  have o1: "CMAEvolutionStrategy toy ((\<lambda>k. 0) 1) (1 / 2) (Some 3) (length [0 :: real]) ''sum''
     (fst (derive_opt_seed toy (Some 7) 7)) = Inl (ValueError ''Invalid weight_rule sum'')"
    by (simp add: CMAEvolutionStrategy_def toy_def derive_opt_seed_def default_rng_def)
  have o2: "CMAEvolutionStrategy toy ((\<lambda>k. 0) 1) (1 / 2) (Some 3) (length [0 :: real]) ''truncation''
     (fst (derive_opt_seed toy (Some 7) 7)) = Inr (7, 3, [])"
    by (simp add: CMAEvolutionStrategy_def toy_def derive_opt_seed_def default_rng_def)
  have bad: "default_rng toy (Some (- 1)) ((\<lambda>k. 0) 0) = Inl (ValueError ''expected non-negative integer'')"
    by (simp add: default_rng_def)
  from init_validation[of toy "Some 7" "\<lambda>k. 0" 0 "[0]" "1 / 2" "''best''" "''never''"
      "''truncation''" None "Some 3"] g n l a
  have 1: "emitter_init toy (\<lambda>k. 0) 0 [0] (1 / 2) ''best'' ''never'' ''truncation'' None (Some 3) (Some 7) =
     Inl (ValueError ''Invalid selection_rule best'')"
    by simp
  from init_validation[of toy "Some 7" "\<lambda>k. 0" 0 "[0]" "1 / 2" "''mu''" "''never''"
      "''truncation''" None "Some 3"] g n l b c
  have 2: "emitter_init toy (\<lambda>k. 0) 0 [0] (1 / 2) ''mu'' ''never'' ''truncation'' None (Some 3) (Some 7) =
     Inl (ValueError ''Invalid restart_rule never'')"
    by simp
  from init_validation[of toy "Some 7" "\<lambda>k. 0" 0 "[0]" "1 / 2" "''mu''" "''basic''"
      "''sum''" None "Some 3"] g n l b d o1
  have 3: "emitter_init toy (\<lambda>k. 0) 0 [0] (1 / 2) ''mu'' ''basic'' ''sum'' None (Some 3) (Some 7) =
     Inl (ValueError ''Invalid weight_rule sum'')"
    by simp
  from init_validation[of toy "Some 7" "\<lambda>k. 0" 0 "[0]" "1 / 2" "''mu''" "''basic''"
      "''truncation''" None "Some 3"] g n l b d o2
  have 4: "\<nexists>err. emitter_init toy (\<lambda>k. 0) 0 [0] (1 / 2) ''mu'' ''basic'' ''truncation'' None (Some 3) (Some 7) =
      Inl err"
    by simp
  from init_validation[of toy "Some (- 1)" "\<lambda>k. 0" 0 "[0]" "1 / 2" "''best''" "''never''"
      "''truncation''" None "Some 3"] bad
  have 5: "emitter_init toy (\<lambda>k. 0) 0 [0] (1 / 2) ''best'' ''never'' ''truncation'' None (Some 3) (Some (- 1)) =
     Inl (ValueError ''expected non-negative integer'')"
    by simp
  from g n l a 1 b c 2 d 3 o2 4 bad 5 show ?thesis by simp
qed

text \<open>
  A negative seed: construction fails with numpy's error although both rules are valid,
  and with the same error, which names no rule, when the selection rule is invalid. On
  the example collaborators, bounds of the wrong length fail in the base class, again
  with both rules valid.
\<close>

theorem init_early_failure_counterexample:
  "''mu'' \<in> set [''mu'', ''filter''] \<and> ''basic'' \<in> set [''basic'', ''no_improvement''] \<and>
   emitter_init toy (\<lambda>k. 0) 0 [0] (1 / 2) ''mu'' ''basic'' ''truncation'' None (Some 3) (Some (- 1)) =
     Inl (ValueError ''expected non-negative integer'') \<and>
   ''best'' \<notin> set [''mu'', ''filter''] \<and>
   emitter_init toy (\<lambda>k. 0) 0 [0] (1 / 2) ''best'' ''basic'' ''truncation'' None (Some 3) (Some (- 1)) =
     Inl (ValueError ''expected non-negative integer'') \<and>
   emitter_init toy (\<lambda>k. 0) 0 [0] (1 / 2) ''mu'' ''basic'' ''truncation'' (Some [None, None]) (Some 3)
     (Some 7) = Inl (ValueError ''bounds must have length solution_dim'')"
  by (simp add: emitter_init_def default_rng_def toy_def)

end
